theory Spec2Isabelle
  imports Main
begin

section \<open>Data model\<close>

text \<open>
  Modelled from the spec: the constants table \<^verbatim>\<open>SIGN_EVENTS\<close> of \<^verbatim>\<open>contance.js\<close> is not
  among the sources; the comment at its import lists the five keys, and the spec lists the
  same five states. They are taken to be five different values.
\<close>

datatype sign_event = PENDING | SENT | DELIVERED | COMPLETED | VOIDED

text \<open>
  The payload a token carries. The handlers read \<^verbatim>\<open>envId\<close>, \<^verbatim>\<open>_id\<close>, \<^verbatim>\<open>email\<close> and
  \<^verbatim>\<open>i\<close>; a field that is absent is \<open>None\<close>. Numbers are integers.
\<close>

record payload =
  pl_envId :: "string option"
  pl_id :: "string option"
  pl_email :: "string option"
  pl_i :: "int option"

text \<open>
  A token of the \<^verbatim>\<open>jsonwebtoken\<close> library, kept structured rather than serialised:
  the payload, the time of issue in seconds, the expiry in seconds when the signing call
  asked for one, and the secret it was signed with. \<open>Garbage\<close> is any string that does
  not decode as a token.
\<close>

datatype jwt = Garbage | Signed payload nat "nat option" string

datatype jwt_error = JsonWebTokenError | TokenExpiredError

text \<open>A link is either a plain string or \<^verbatim>\<open>${BASE_URL}/sign/${token}\<close>.\<close>

datatype url = Plain string | SignLink string jwt

record original_file =
  filename :: string
  storedName :: string
  publicUrl :: string
  mimetype :: string

record signer =
  email :: string
  name :: string
  status :: sign_event
  sentAt :: "nat option"
  deliveredAt :: "nat option"
  completedAt :: "nat option"
  signedUrl :: url

record envelope =
  signers :: "signer list"
  documentStatus :: sign_event
  files :: "original_file list"
  pdf :: string
  signedPdf :: string
  envSignedUrl :: url

text \<open>The collection of envelopes, keyed by \<^verbatim>\<open>String(env._id)\<close>.\<close>

type_synonym store = "string \<rightharpoonup> envelope"

record config =
  BASE_URL :: string
  JWT_SECRET :: string

section \<open>Tokens\<close>

text \<open>
  \<^verbatim>\<open>jwt.sign(payload, secret, options)\<close>: the library stamps \<^verbatim>\<open>iat\<close> with the clock in
  seconds, and \<^verbatim>\<open>exp\<close> only when \<^verbatim>\<open>expiresIn\<close> is passed. The clock of the model counts
  milliseconds, as \<^verbatim>\<open>Date.now()\<close> does.
\<close>

definition jwt_sign :: "payload \<Rightarrow> string \<Rightarrow> nat option \<Rightarrow> nat \<Rightarrow> jwt" where
  "jwt_sign p secret expiresIn now =
     Signed p (now div 1000)
       (case expiresIn of None \<Rightarrow> None | Some d \<Rightarrow> Some (now div 1000 + d)) secret"

text \<open>
  \<^verbatim>\<open>jwt.verify(token, secret, callback)\<close>: an error for a token that does not decode or
  was signed with another secret, an error once the clock has reached \<^verbatim>\<open>exp\<close>, the
  payload otherwise.
\<close>

definition jwt_verify :: "jwt \<Rightarrow> string \<Rightarrow> nat \<Rightarrow> jwt_error + payload" where
  "jwt_verify token secret now =
     (case token of
        Garbage \<Rightarrow> Inl JsonWebTokenError
      | Signed p iat ex key \<Rightarrow>
          if key \<noteq> secret then Inl JsonWebTokenError
          else (case ex of
                  None \<Rightarrow> Inr p
                | Some e \<Rightarrow> if e \<le> now div 1000 then Inl TokenExpiredError else Inr p))"

section \<open>Responses\<close>

datatype body =
    ErrorBody string
  | TextBody string
  | CreatedBody string url sign_event "original_file list" "signer list"
  | EnvelopeBody string sign_event int signer "original_file list"
  | CompletedBody string string int string sign_event
  | CancelledBody string
  | SignPage

record response =
  code :: nat
  content :: body

definition reply :: "nat \<Rightarrow> body \<Rightarrow> response" where
  "reply c b = \<lparr>code = c, content = b\<rparr>"

section \<open>The token middleware\<close>

record request =
  envId :: "string option"
  signerEmail :: "string option"
  signerIndex :: "int option"

text \<open>\<^verbatim>\<open>a || b\<close> on two optional strings: the first unless it is absent or empty.\<close>

definition js_or :: "string option \<Rightarrow> string option \<Rightarrow> string option" where
  "js_or a b = (case a of None \<Rightarrow> b | Some s \<Rightarrow> if s = [] then b else Some s)"

definition verifyJWT :: "config \<Rightarrow> nat \<Rightarrow> jwt option \<Rightarrow> response + request" where
  "verifyJWT cfg now token =
     (case token of
        None \<Rightarrow> Inl (reply 401 (ErrorBody ''Missing token''))
      | Some t \<Rightarrow>
          (case jwt_verify t (JWT_SECRET cfg) now of
             Inl err \<Rightarrow> Inl (reply 401 (ErrorBody ''Invalid token''))
           | Inr decoded \<Rightarrow>
               Inr \<lparr>envId = js_or (pl_envId decoded) (pl_id decoded),
                    signerEmail = pl_email decoded,
                    signerIndex = pl_i decoded\<rparr>))"

section \<open>The envelope handlers\<close>

definition findById :: "store \<Rightarrow> string option \<Rightarrow> envelope option" where
  "findById st eid = (case eid of None \<Rightarrow> None | Some k \<Rightarrow> st k)"

fun findIndex :: "('a \<Rightarrow> bool) \<Rightarrow> 'a list \<Rightarrow> int" where
  "findIndex P [] = -1"
| "findIndex P (x # xs) =
     (if P x then 0 else (let r = findIndex P xs in if r < 0 then -1 else r + 1))"

text \<open>The signer a request addresses: the index of the token, else a lookup by email.\<close>

definition signerIdx :: "request \<Rightarrow> envelope \<Rightarrow> int" where
  "signerIdx req env =
     (case signerIndex req of
        Some n \<Rightarrow> n
      | None \<Rightarrow> findIndex (\<lambda>s. Some (email s) = signerEmail req) (signers env))"

definition the_id :: "request \<Rightarrow> string" where
  "the_id req = (case envId req of None \<Rightarrow> [] | Some k \<Rightarrow> k)"

text \<open>
  \<^verbatim>\<open>GET /api/envelopes/by-token/:token\<close>. The handler saves the envelope only when it
  has changed the signer; the model stores the envelope in both cases, which leaves the
  same store when nothing was changed.
\<close>

definition markDelivered :: "nat \<Rightarrow> nat \<Rightarrow> envelope \<Rightarrow> envelope" where
  "markDelivered now k env =
     (if status (signers env ! k) = SENT then
        (let env1 = env\<lparr>signers := (signers env)
                       [k := (signers env ! k)\<lparr>status := DELIVERED, deliveredAt := Some now\<rparr>]\<rparr>
         in if list_all (\<lambda>s. status s \<in> set [DELIVERED, COMPLETED]) (signers env1)
            then env1\<lparr>documentStatus := DELIVERED\<rparr> else env1)
      else env)"

definition getByToken :: "config \<Rightarrow> nat \<Rightarrow> jwt option \<Rightarrow> store \<Rightarrow> response \<times> store" where
  "getByToken cfg now token st =
     (case verifyJWT cfg now token of
        Inl r \<Rightarrow> (r, st)
      | Inr req \<Rightarrow>
          (case findById st (envId req) of
             None \<Rightarrow> (reply 404 (ErrorBody ''Envelope not found''), st)
           | Some env \<Rightarrow>
               (let idx = signerIdx req env in
                if idx < 0 \<or> idx \<ge> int (length (signers env))
                then (reply 400 (ErrorBody ''Signer not found in envelope''), st)
                else
                  (let env' = markDelivered now (nat idx) env
                   in (reply 200 (EnvelopeBody (the_id req) (documentStatus env') idx
                                    (signers env' ! nat idx) (files env')),
                       st(the_id req \<mapsto> env'))))))"

text \<open>
  \<^verbatim>\<open>POST /api/envelopes/:token/complete\<close>. The upload is the name under which the
  upload middleware stored an accepted PDF, or \<open>None\<close> when the request had no file;
  the middleware runs after the token check and before the handler.
\<close>

definition markCompleted :: "config \<Rightarrow> nat \<Rightarrow> string \<Rightarrow> nat \<Rightarrow> envelope \<Rightarrow> envelope" where
  "markCompleted cfg now fname k env =
     (let env1 = env\<lparr>signers := (signers env)
                    [k := (signers env ! k)\<lparr>status := COMPLETED, completedAt := Some now\<rparr>]\<rparr>;
          env2 = env1\<lparr>signedPdf := BASE_URL cfg @ ''/storage/signed/'' @ fname\<rparr>
      in if list_all (\<lambda>s. status s = COMPLETED) (signers env2)
         then env2\<lparr>documentStatus := COMPLETED\<rparr> else env2)"

definition complete ::
  "config \<Rightarrow> nat \<Rightarrow> jwt option \<Rightarrow> string option \<Rightarrow> store \<Rightarrow> response \<times> store" where
  "complete cfg now token file st =
     (case verifyJWT cfg now token of
        Inl r \<Rightarrow> (r, st)
      | Inr req \<Rightarrow>
          (case file of
             None \<Rightarrow> (reply 400 (ErrorBody ''Missing file in upload''), st)
           | Some fname \<Rightarrow>
               (case findById st (envId req) of
                  None \<Rightarrow> (reply 404 (ErrorBody ''Envelope not found''), st)
                | Some env \<Rightarrow>
                    (let idx = signerIdx req env in
                     if idx < 0 \<or> idx \<ge> int (length (signers env))
                     then (reply 400 (ErrorBody ''Signer not found in envelope''), st)
                     else
                       (let env' = markCompleted cfg now fname (nat idx) env
                        in (reply 200 (CompletedBody (signedPdf env') (the_id req) idx
                                         (email (signers env' ! nat idx)) (documentStatus env')),
                            st(the_id req \<mapsto> env')))))))"

text \<open>\<^verbatim>\<open>POST /api/envelopes/:token/cancel\<close>\<close>

definition voidAll :: "envelope \<Rightarrow> envelope" where
  "voidAll env =
     (env\<lparr>documentStatus := VOIDED\<rparr>)
        \<lparr>signers := map (\<lambda>s. s\<lparr>status := VOIDED\<rparr>) (signers env)\<rparr>"

definition cancel :: "config \<Rightarrow> nat \<Rightarrow> jwt option \<Rightarrow> store \<Rightarrow> response \<times> store" where
  "cancel cfg now token st =
     (case verifyJWT cfg now token of
        Inl r \<Rightarrow> (r, st)
      | Inr req \<Rightarrow>
          (case findById st (envId req) of
             None \<Rightarrow> (reply 404 (ErrorBody ''Envelope not found''), st)
           | Some env \<Rightarrow>
               (reply 200 (CancelledBody (the_id req)), st(the_id req \<mapsto> voidAll env))))"

section \<open>Strings and JSON values\<close>

text \<open>
  Strings are sequences of code units below 256, read as Latin-1. There the white space
  of \<^verbatim>\<open>trim\<close> and of the regular expressions' \<^verbatim>\<open>\s\<close> is tab, line feed, vertical
  tab, form feed, carriage return, space and the no-break space \<^verbatim>\<open>0xA0\<close>; and
  \<^verbatim>\<open>toLowerCase\<close> adds 32 to the letters \<^verbatim>\<open>A\<close>..\<^verbatim>\<open>Z\<close> and to the letters
  \<^verbatim>\<open>0xC0\<close>..\<^verbatim>\<open>0xDE\<close>, the multiplication sign \<^verbatim>\<open>0xD7\<close> apart.
\<close>

definition isSpace :: "char \<Rightarrow> bool" where
  "isSpace c =
     (c \<in> set [CHR 0x09, CHR 0x0A, CHR 0x0B, CHR 0x0C, CHR 0x0D, CHR '' '', CHR 0xA0])"

definition trim :: "string \<Rightarrow> string" where
  "trim s = rev (dropWhile isSpace (rev (dropWhile isSpace s)))"

definition lowerChar :: "char \<Rightarrow> char" where
  "lowerChar c =
     (let n = (of_char c :: nat)
      in if (65 \<le> n \<and> n \<le> 90) \<or> (192 \<le> n \<and> n \<le> 222 \<and> n \<noteq> 215)
         then char_of (n + 32) else c)"

definition toLowerCase :: "string \<Rightarrow> string" where
  "toLowerCase s = map lowerChar s"

text \<open>
  \<^verbatim>\<open>s.split(/[...]+/)\<close>: the pieces between maximal runs of separators; a separator at
  either end leaves an empty piece there. The flag says that the previous character was a
  separator.
\<close>

fun splitRuns :: "(char \<Rightarrow> bool) \<Rightarrow> bool \<Rightarrow> string \<Rightarrow> string \<Rightarrow> string list" where
  "splitRuns sep inRun cur [] = [rev cur]"
| "splitRuns sep inRun cur (c # cs) =
     (if sep c then (if inRun then splitRuns sep True [] cs
                     else rev cur # splitRuns sep True [] cs)
      else splitRuns sep False (c # cur) cs)"

definition split :: "(char \<Rightarrow> bool) \<Rightarrow> string \<Rightarrow> string list" where
  "split sep s = splitRuns sep False [] s"

text \<open>A value of \<^verbatim>\<open>JSON.parse\<close>; numbers are integers.\<close>

datatype jval =
    JNull | JBool bool | JNum int | JStr string | JArr "jval list" | JObj "(string \<times> jval) list"

fun truthy :: "jval \<Rightarrow> bool" where
  "truthy JNull = False"
| "truthy (JBool b) = b"
| "truthy (JNum n) = (n \<noteq> 0)"
| "truthy (JStr s) = (s \<noteq> [])"
| "truthy (JArr vs) = True"
| "truthy (JObj kvs) = True"

definition digitChar :: "nat \<Rightarrow> char" where
  "digitChar d = char_of (48 + d)"

fun natStr :: "nat \<Rightarrow> string" where
  "natStr n = (if n < 10 then [digitChar n] else natStr (n div 10) @ [digitChar (n mod 10)])"

definition intStr :: "int \<Rightarrow> string" where
  "intStr n = (if n < 0 then CHR ''-'' # natStr (nat (- n)) else natStr (nat n))"

fun joinWith :: "string \<Rightarrow> string list \<Rightarrow> string" where
  "joinWith sep [] = []"
| "joinWith sep [x] = x"
| "joinWith sep (x # y # ys) = x @ sep @ joinWith sep (y # ys)"

text \<open>The string a value becomes inside a template literal.\<close>

fun toStr :: "jval \<Rightarrow> string" where
  "toStr JNull = ''null''"
| "toStr (JBool b) = (if b then ''true'' else ''false'')"
| "toStr (JNum n) = intStr n"
| "toStr (JStr s) = s"
| "toStr (JArr vs) = joinWith '','' (map (\<lambda>v. if v = JNull then [] else toStr v) vs)"
| "toStr (JObj kvs) = ''[object Object]''"

text \<open>\<^verbatim>\<open>v.key\<close> on a parsed value: a property of an object, undefined elsewhere.\<close>

fun getProp :: "jval \<Rightarrow> string \<Rightarrow> jval option" where
  "getProp (JObj kvs) k = map_of kvs k"
| "getProp v k = None"

definition truthyProp :: "jval \<Rightarrow> string \<Rightarrow> bool" where
  "truthyProp v k = (case getProp v k of None \<Rightarrow> False | Some x \<Rightarrow> truthy x)"

section \<open>The recipient parser\<close>

text \<open>
  \<^verbatim>\<open>raw.match(/^(.*)<([^>]+)>$/)\<close>: the text must end in \<^verbatim>\<open>>\<close>; the first group is
  the longest prefix without a line terminator that is followed by \<^verbatim>\<open><\<close> and a
  non-empty rest without \<^verbatim>\<open>>\<close>.
\<close>

definition isLineTerminator :: "char \<Rightarrow> bool" where
  "isLineTerminator c = (c = CHR 0x0A \<or> c = CHR 0x0D)"

definition matchAngle :: "string \<Rightarrow> (string \<times> string) option" where
  "matchAngle raw =
     (if raw = [] \<or> last raw \<noteq> CHR ''>'' then None
      else
        (let inner = butlast raw;
             fits = (\<lambda>p. inner ! p = CHR ''<'' \<and>
                          \<not> list_ex isLineTerminator (take p inner) \<and>
                          drop (Suc p) inner \<noteq> [] \<and>
                          \<not> list_ex (\<lambda>c. c = CHR ''>'') (drop (Suc p) inner))
         in case filter fits (rev [0..<length inner]) of
              [] \<Rightarrow> None
            | p # ps \<Rightarrow> Some (take p inner, drop (Suc p) inner)))"

text \<open>\<^verbatim>\<open>s.replace(/^"|"$/g, "")\<close>: one quote off the front, then one off the end.\<close>

definition stripQuotes :: "string \<Rightarrow> string" where
  "stripQuotes s =
     (let s1 = (case s of [] \<Rightarrow> [] | c # cs \<Rightarrow> if c = CHR 0x22 then cs else s)
      in if s1 \<noteq> [] \<and> last s1 = CHR 0x22 then butlast s1 else s1)"

text \<open>\<^verbatim>\<open>/^[^\s@]+@[^\s@]+\.[^\s@]+$/.test(s)\<close>\<close>

definition emailRegex :: "string \<Rightarrow> bool" where
  "emailRegex s =
     (let local = takeWhile (\<lambda>c. c \<noteq> CHR ''@'') s;
          rest = dropWhile (\<lambda>c. c \<noteq> CHR ''@'') s
      in local \<noteq> [] \<and> \<not> list_ex isSpace local \<and> rest \<noteq> [] \<and>
         (let dom = tl rest
          in \<not> list_ex (\<lambda>c. isSpace c \<or> c = CHR ''@'') dom \<and>
             list_ex (\<lambda>p. dom ! p = CHR ''.'') [1..<length dom - 1]))"

fun isObject :: "jval \<Rightarrow> bool" where
  "isObject JNull = True"
| "isObject (JArr vs) = True"
| "isObject (JObj kvs) = True"
| "isObject v = False"

text \<open>The callback of \<^verbatim>\<open>parsed.map\<close>; \<open>None\<close> is \<^verbatim>\<open>null\<close>.\<close>

fun entryString :: "jval \<Rightarrow> string option" where
  "entryString (JStr s) = Some s"
| "entryString v =
     (if truthy v \<and> isObject v then
        (case getProp v ''email'' of
           None \<Rightarrow> None
         | Some e \<Rightarrow>
             if truthy e then
               Some ((case getProp v ''name'' of
                        None \<Rightarrow> []
                      | Some n \<Rightarrow> if truthy n then toStr n else [])
                     @ '' <'' @ toStr e @ ''>'')
             else None)
      else None)"

definition isDelimiter :: "char \<Rightarrow> bool" where
  "isDelimiter c = (c = CHR 0x0A \<or> c = CHR '','' \<or> c = CHR '';'')"

text \<open>
  The \<^verbatim>\<open>list\<close> of \<^verbatim>\<open>parseRecipients\<close>. \<^verbatim>\<open>JSON.parse\<close> is a parameter; \<open>None\<close> is
  its exception. An input that is undefined behaves as the empty string.
\<close>

definition recipientList :: "(string \<Rightarrow> jval option) \<Rightarrow> string \<Rightarrow> string list" where
  "recipientList jsonParse input =
     (case jsonParse input of
        None \<Rightarrow> split isDelimiter input
      | Some parsed \<Rightarrow>
          (case parsed of
             JArr vs \<Rightarrow> filter (\<lambda>x. x \<noteq> []) (List.map_filter entryString vs)
           | _ \<Rightarrow> []))"

record recipient =
  recEmail :: string
  recName :: string

text \<open>One round of the loop up to the test of the email; \<open>None\<close> is \<^verbatim>\<open>continue\<close>.\<close>

definition parseEntry :: "string \<Rightarrow> recipient option" where
  "parseEntry raw0 =
     (let raw = trim raw0 in
      if raw = [] then None
      else
        (let r = (case matchAngle raw of
                    None \<Rightarrow> \<lparr>recEmail = raw, recName = []\<rparr>
                  | Some (a, b) \<Rightarrow> \<lparr>recEmail = trim b, recName = stripQuotes (trim a)\<rparr>);
             r' = r\<lparr>recEmail := toLowerCase (recEmail r)\<rparr>
         in if emailRegex (recEmail r') then Some r' else None))"

text \<open>The \<^verbatim>\<open>Map\<close> keeps its entries in the order of insertion.\<close>

definition uniqAdd :: "(string \<times> recipient) list \<Rightarrow> string \<Rightarrow> (string \<times> recipient) list" where
  "uniqAdd uniq raw =
     (case parseEntry raw of
        None \<Rightarrow> uniq
      | Some r \<Rightarrow> if map_of uniq (recEmail r) \<noteq> None then uniq else uniq @ [(recEmail r, r)])"

definition parseRecipients :: "(string \<Rightarrow> jval option) \<Rightarrow> string \<Rightarrow> recipient list" where
  "parseRecipients jsonParse input = map snd (foldl uniqAdd [] (recipientList jsonParse input))"

section \<open>Envelope creation\<close>

text \<open>
  The fields of \<^verbatim>\<open>req.body\<close> that the handler itself reads; the others only reach the
  template renderer. A field that is undefined behaves as the empty string.
\<close>

record form =
  templates :: string
  emails :: string
  formName :: string

text \<open>
  The collaborators of one creation request: \<^verbatim>\<open>JSON.parse\<close>, whether a template file
  exists, whether reading, rendering and writing it goes through, the name the generated
  file gets (the clock and a random number are in it), the identifier the store gives the
  new envelope, and whether \<^verbatim>\<open>sendMail\<close> to an address resolves.
\<close>

record world =
  jsonParse :: "string \<Rightarrow> jval option"
  tplExists :: "string \<Rightarrow> bool"
  renderOk :: "string \<Rightarrow> bool"
  outName :: "nat \<Rightarrow> string \<Rightarrow> string"
  newId :: string
  mailOk :: "string \<Rightarrow> bool"

text \<open>The constant is declared in the source; the signing call does not pass it.\<close>

definition expireTime :: "nat option" where
  "expireTime = Some 300"

definition selectedTemplates :: "(string \<Rightarrow> jval option) \<Rightarrow> string \<Rightarrow> jval list option" where
  "selectedTemplates parse tpls =
     (case parse tpls of
        None \<Rightarrow>
          Some (map JStr (filter (\<lambda>x. x \<noteq> [])
                  (map trim (split (\<lambda>c. c = CHR '','' \<or> isSpace c) tpls))))
      | Some parsed \<Rightarrow> (case parsed of JArr vs \<Rightarrow> Some vs | _ \<Rightarrow> None))"

text \<open>The loop over the selected templates; \<open>None\<close> is an exception of the renderer.\<close>

fun generateFiles :: "config \<Rightarrow> world \<Rightarrow> nat \<Rightarrow> jval list \<Rightarrow> original_file list option" where
  "generateFiles cfg w n [] = Some []"
| "generateFiles cfg w n (t # ts) =
     (let ty = toStr t in
      if \<not> tplExists w ty then generateFiles cfg w (Suc n) ts
      else if \<not> renderOk w ty then None
      else
        (case generateFiles cfg w (Suc n) ts of
           None \<Rightarrow> None
         | Some fs \<Rightarrow>
             Some (\<lparr>filename = outName w n ty, storedName = outName w n ty,
                    publicUrl = BASE_URL cfg @ ''/storage/originals/'' @ outName w n ty,
                    mimetype = ''text/html''\<rparr> # fs)))"

definition newSigner :: "nat \<Rightarrow> form \<Rightarrow> recipient \<Rightarrow> signer" where
  "newSigner now f r =
     \<lparr>email = recEmail r,
      name = (if recName r \<noteq> [] then recName r else formName f),
      status = SENT, sentAt = Some now, deliveredAt = None, completedAt = None,
      signedUrl = Plain []\<rparr>"

definition tokenPayload :: "string \<Rightarrow> signer \<Rightarrow> nat \<Rightarrow> payload" where
  "tokenPayload eid s i =
     \<lparr>pl_envId = Some eid, pl_id = None, pl_email = Some (email s), pl_i = Some (int i)\<rparr>"

definition mintToken :: "config \<Rightarrow> nat \<Rightarrow> string \<Rightarrow> signer \<Rightarrow> nat \<Rightarrow> jwt" where
  "mintToken cfg now eid s i = jwt_sign (tokenPayload eid s i) (JWT_SECRET cfg) None now"

definition attachLinks :: "config \<Rightarrow> nat \<Rightarrow> string \<Rightarrow> envelope \<Rightarrow> envelope" where
  "attachLinks cfg now eid env =
     (let ss = map (\<lambda>(i, s). s\<lparr>signedUrl := SignLink (BASE_URL cfg) (mintToken cfg now eid s i)\<rparr>)
                 (enumerate 0 (signers env))
      in env\<lparr>signers := ss,
              envSignedUrl := (case ss of [] \<Rightarrow> Plain [] | s # rest \<Rightarrow> signedUrl s)\<rparr>)"

text \<open>
  \<^verbatim>\<open>POST /api/generate-template\<close>. An identifier that the store already holds makes
  \<^verbatim>\<open>Envelope.create\<close> throw. The mails go out after the envelope is saved; one rejected
  \<^verbatim>\<open>sendMail\<close> rejects the \<^verbatim>\<open>Promise.all\<close>, and the \<^verbatim>\<open>catch\<close> answers that.
\<close>

definition generateTemplate :: "config \<Rightarrow> world \<Rightarrow> nat \<Rightarrow> form \<Rightarrow> store \<Rightarrow> response \<times> store" where
  "generateTemplate cfg w now f st =
     (case selectedTemplates (jsonParse w) (templates f) of
        None \<Rightarrow> (reply 400 (ErrorBody ''Select at least one template''), st)
      | Some selected \<Rightarrow>
          if selected = [] then (reply 400 (ErrorBody ''Select at least one template''), st)
          else
            (let recipients = parseRecipients (jsonParse w) (emails f) in
             if recipients = []
             then (reply 400 (ErrorBody ''Provide at least one valid recipient email''), st)
             else
               (case generateFiles cfg w 0 selected of
                  None \<Rightarrow> (reply 500 (ErrorBody ''Generation failed''), st)
                | Some fs \<Rightarrow>
                    if fs = [] then (reply 404 (ErrorBody ''No templates found''), st)
                    else if st (newId w) \<noteq> None
                    then (reply 500 (ErrorBody ''Generation failed''), st)
                    else
                      (let env = attachLinks cfg now (newId w)
                                   \<lparr>signers = map (newSigner now f) recipients,
                                    documentStatus = SENT, files = fs, pdf = [],
                                    signedPdf = [], envSignedUrl = Plain []\<rparr>;
                           st' = st(newId w \<mapsto> env)
                       in if list_all (\<lambda>s. mailOk w (email s)) (signers env)
                          then (reply 200 (CreatedBody (newId w) (envSignedUrl env)
                                             (documentStatus env) (files env) (signers env)),
                                st')
                          else (reply 500 (ErrorBody ''Generation failed''), st')))))"

text \<open>\<^verbatim>\<open>GET /sign/:token\<close>\<close>

definition signPage :: "config \<Rightarrow> nat \<Rightarrow> jwt \<Rightarrow> response" where
  "signPage cfg now token =
     (case jwt_verify token (JWT_SECRET cfg) now of
        Inl err \<Rightarrow> reply 401 (TextBody ''Link expired'')
      | Inr decoded \<Rightarrow> reply 200 SignPage)"

section \<open>Sequences of requests\<close>

datatype call =
    Generate world nat form
  | ByToken nat "jwt option"
  | Complete nat "jwt option" "string option"
  | Cancel nat "jwt option"

fun handle :: "config \<Rightarrow> call \<Rightarrow> store \<Rightarrow> response \<times> store" where
  "handle cfg (Generate w now f) st = generateTemplate cfg w now f st"
| "handle cfg (ByToken now token) st = getByToken cfg now token st"
| "handle cfg (Complete now token file) st = complete cfg now token file st"
| "handle cfg (Cancel now token) st = cancel cfg now token st"

fun run :: "config \<Rightarrow> call list \<Rightarrow> store \<Rightarrow> store" where
  "run cfg [] st = st"
| "run cfg (c # cs) st = run cfg cs (snd (handle cfg c st))"

fun isComplete :: "call \<Rightarrow> bool" where
  "isComplete (Complete now token file) = True"
| "isComplete c = False"

section \<open>Notions used in the statements\<close>

text \<open>
  The moves of one signer's status that the handlers make: none, the cancellation, a
  completion, and the first opening of the link.
\<close>

definition moves :: "sign_event \<Rightarrow> sign_event \<Rightarrow> bool" where
  "moves s s' = (s' = s \<or> s' = VOIDED \<or> s' = COMPLETED \<or> (s = SENT \<and> s' = DELIVERED))"

text \<open>The place of a status in the chain of the spec; \<open>VOIDED\<close> is not on it.\<close>

fun chainRank :: "sign_event \<Rightarrow> nat" where
  "chainRank PENDING = 0"
| "chainRank SENT = 1"
| "chainRank DELIVERED = 2"
| "chainRank COMPLETED = 3"
| "chainRank VOIDED = 0"

definition voided :: "envelope \<Rightarrow> bool" where
  "voided env = (documentStatus env = VOIDED \<and> list_all (\<lambda>s. status s = VOIDED) (signers env))"

text \<open>
  The aggregate of the spec, written from its words: all signers voided gives \<open>VOIDED\<close>,
  all completed gives \<open>COMPLETED\<close>, all delivered or completed gives \<open>DELIVERED\<close>,
  anything else \<open>SENT\<close>.
\<close>

definition specAggregate :: "sign_event list \<Rightarrow> sign_event" where
  "specAggregate ss =
     (if list_all (\<lambda>s. s = VOIDED) ss then VOIDED
      else if list_all (\<lambda>s. s = COMPLETED) ss then COMPLETED
      else if list_all (\<lambda>s. s = DELIVERED \<or> s = COMPLETED) ss then DELIVERED
      else SENT)"

text \<open>What is observed of a stored envelope: the statuses, and one signer's time stamps.\<close>

definition statusesAt :: "store \<Rightarrow> string \<Rightarrow> (sign_event list \<times> sign_event) option" where
  "statusesAt st k = map_option (\<lambda>env. (map status (signers env), documentStatus env)) (st k)"

definition stampsAt :: "store \<Rightarrow> string \<Rightarrow> (nat option \<times> nat option \<times> nat option) list option" where
  "stampsAt st k =
     map_option (\<lambda>env. map (\<lambda>s. (sentAt s, deliveredAt s, completedAt s)) (signers env)) (st k)"

text \<open>What one request does to one stored envelope.\<close>

datatype effect = Unchanged | Delivered nat nat | Completed nat string nat | Voided

fun apply_effect :: "config \<Rightarrow> effect \<Rightarrow> envelope \<Rightarrow> envelope" where
  "apply_effect cfg Unchanged env = env"
| "apply_effect cfg (Delivered now k) env = markDelivered now k env"
| "apply_effect cfg (Completed now fname k) env = markCompleted cfg now fname k env"
| "apply_effect cfg Voided env = voidAll env"

fun in_range :: "effect \<Rightarrow> envelope \<Rightarrow> bool" where
  "in_range (Delivered now k) env = (k < length (signers env))"
| "in_range (Completed now fname k) env = (k < length (signers env))"
| "in_range e env = True"

fun effect_of :: "call \<Rightarrow> effect \<Rightarrow> bool" where
  "effect_of c Unchanged = True"
| "effect_of (ByToken now token) (Delivered t k) = (t = now)"
| "effect_of (Complete now token upload) (Completed t fname k) = (t = now \<and> upload = Some fname)"
| "effect_of (Cancel now token) Voided = True"
| "effect_of c e = False"


section \<open>A scenario\<close>

text \<open>
  One template on disk, two recipients, every collaborator working; and the tokens that
  the creation at second 5 signs for the two signers.
\<close>

definition exCfg :: config where
  "exCfg = \<lparr>BASE_URL = ''http://h'', JWT_SECRET = ''k''\<rparr>"

definition exWorld :: world where
  "exWorld =
     \<lparr>jsonParse = (\<lambda>s. None), tplExists = (\<lambda>t. t = ''nda''), renderOk = (\<lambda>t. True),
      outName = (\<lambda>n t. t @ ''.html''), newId = ''e1'', mailOk = (\<lambda>a. True)\<rparr>"

definition exForm :: form where
  "exForm = \<lparr>templates = ''nda'', emails = ''a@x.com,b@x.com'', formName = ''N''\<rparr>"

definition exToken :: "string \<Rightarrow> nat \<Rightarrow> jwt" where
  "exToken e i =
     Signed \<lparr>pl_envId = Some ''e1'', pl_id = None, pl_email = Some e, pl_i = Some (int i)\<rparr>
       5 None ''k''"

definition exCreate :: call where
  "exCreate = Generate exWorld 5000 exForm"



text \<open>
  The envelope of the scenario with its signers in given states, and the store that holds
  it; with both signers \<open>SENT\<close> it is what the creation leaves.
\<close>

definition exEnv :: "sign_event list \<Rightarrow> sign_event \<Rightarrow> envelope" where
  "exEnv ss d =
     \<lparr>signers = map (\<lambda>((e, i), s). \<lparr>email = e, name = ''N'', status = s, sentAt = Some 5000,
                                  deliveredAt = None, completedAt = None,
                                  signedUrl = SignLink ''http://h'' (exToken e i)\<rparr>)
                     (zip [(''a@x.com'', 0), (''b@x.com'', 1)] ss),
         documentStatus = d,
         files = [\<lparr>filename = ''nda.html'', storedName = ''nda.html'',
                   publicUrl = ''http://h/storage/originals/nda.html'',
                   mimetype = ''text/html''\<rparr>],
         pdf = [], signedPdf = [],
         envSignedUrl = SignLink ''http://h'' (exToken ''a@x.com'' 0)\<rparr>"

definition exStore :: "sign_event list \<Rightarrow> sign_event \<Rightarrow> store" where
  "exStore ss d = [''e1'' \<mapsto> exEnv ss d]"

definition exReq :: "string \<Rightarrow> nat \<Rightarrow> request" where
  "exReq e i = \<lparr>envId = Some ''e1'', signerEmail = Some e, signerIndex = Some (int i)\<rparr>"


text \<open>The scenario with no template on disk, and with the mail to the second recipient failing.\<close>

definition exWorldNoFiles :: world where
  "exWorldNoFiles = exWorld\<lparr>tplExists := (\<lambda>t. False)\<rparr>"

definition exWorldMailFails :: world where
  "exWorldMailFails = exWorld\<lparr>mailOk := (\<lambda>a. a \<noteq> ''b@x.com'')\<rparr>"

text \<open>A status code of the 400 class.\<close>

definition clientError :: "response \<Rightarrow> bool" where
  "clientError r = (400 \<le> code r \<and> code r < 500)"


text \<open>
  The recipient list \<^verbatim>\<open>[{"email":"a@b.co","name":"A\nB"}]\<close>: one object, its email
  valid, its name in two lines; what \<^verbatim>\<open>JSON.parse\<close> makes of it; and the same with the
  name in one line.
\<close>

definition quoted :: "string \<Rightarrow> string" where
  "quoted s = CHR 0x22 # s @ [CHR 0x22]"

definition exJsonText :: string where
  "exJsonText =
     ''[{'' @ quoted ''email'' @ '':'' @ quoted ''a@b.co'' @ '','' @ quoted ''name'' @ '':'' @
     quoted [CHR ''A'', CHR 0x5C, CHR ''n'', CHR ''B''] @ ''}]''"

definition exTwoLines :: jval where
  "exTwoLines =
     JArr [JObj [(''email'', JStr ''a@b.co''), (''name'', JStr [CHR ''A'', CHR 0x0A, CHR ''B''])]]"

definition exOneLine :: jval where
  "exOneLine = JArr [JObj [(''email'', JStr ''a@b.co''), (''name'', JStr ''A B'')]]"

definition exJsonParse :: "string \<Rightarrow> jval option" where
  "exJsonParse s = (if s = exJsonText then Some exTwoLines else None)"

definition exWorldJson :: world where
  "exWorldJson = exWorld\<lparr>jsonParse := exJsonParse\<rparr>"

text \<open>
  A signer has opened the link when its status is \<open>DELIVERED\<close> or \<open>COMPLETED\<close>.
  An envelope is regular when it has a signer, its \<open>documentStatus\<close> is the aggregate
  of the spec, no signer is \<open>PENDING\<close>, and either all or none of the signers are
  voided.
\<close>

definition opened :: "sign_event \<Rightarrow> bool" where
  "opened s = (s = DELIVERED \<or> s = COMPLETED)"

definition regular :: "envelope \<Rightarrow> bool" where
  "regular env =
     (signers env \<noteq> [] \<and>
      documentStatus env = specAggregate (map status (signers env)) \<and>
      list_all (\<lambda>s. status s \<noteq> PENDING) (signers env) \<and>
      (list_all (\<lambda>s. status s = VOIDED) (signers env) \<or>
       list_all (\<lambda>s. status s \<noteq> VOIDED) (signers env)))"

text \<open>
  The moves of one signer's status that one request of each kind can make: a creation
  none, an opening of the link the move from \<open>SENT\<close> to \<open>DELIVERED\<close>, a completion
  the move to \<open>COMPLETED\<close>, and a cancellation the move to \<open>VOIDED\<close>.
\<close>

fun moveBy :: "call \<Rightarrow> sign_event \<Rightarrow> sign_event \<Rightarrow> bool" where
  "moveBy (Generate w now f) s s' = (s' = s)"
| "moveBy (ByToken now token) s s' = (s' = s \<or> (s = SENT \<and> s' = DELIVERED))"
| "moveBy (Complete now token upload) s s' = (s' = s \<or> s' = COMPLETED)"
| "moveBy (Cancel now token) s s' = (s' = s \<or> s' = VOIDED)"

section \<open>The parser's contract\<close>

text \<open>
  The contract of the spec, written from its words. An entry is a string, optionally
  formatted as \<open>Name <email>\<close>, or an object with an email and a name. A string has
  that format when, trimmed, it ends with \<open>>\<close> and has a \<open><\<close>; the email is then the
  text between the last \<open><\<close> and the closing \<open>>\<close>, and else the string itself. The
  email of an object is its email field. The contract takes the emails trimmed and
  lowercased, keeps those that pass the test of shape, and of these the first
  occurrences.
\<close>

definition angled :: "string \<Rightarrow> bool" where
  "angled t = (t \<noteq> [] \<and> last t = CHR ''>'' \<and> list_ex (\<lambda>c. c = CHR ''<'') t)"

definition afterLast :: "char \<Rightarrow> string \<Rightarrow> string" where
  "afterLast x s = rev (takeWhile (\<lambda>c. c \<noteq> x) (rev s))"

definition beforeLast :: "char \<Rightarrow> string \<Rightarrow> string" where
  "beforeLast x s = rev (tl (dropWhile (\<lambda>c. c \<noteq> x) (rev s)))"

fun entryEmail :: "jval \<Rightarrow> string" where
  "entryEmail (JStr s) =
     (if angled (trim s) then afterLast CHR ''<'' (butlast (trim s)) else s)"
| "entryEmail (JObj kvs) = (case map_of kvs ''email'' of Some (JStr e) \<Rightarrow> e | _ \<Rightarrow> [])"
| "entryEmail v = []"

definition normalEmail :: "string \<Rightarrow> string" where
  "normalEmail e = toLowerCase (trim e)"

definition validEmails :: "jval list \<Rightarrow> string list" where
  "validEmails vs = filter emailRegex (map (\<lambda>v. normalEmail (entryEmail v)) vs)"

fun firsts :: "'a list \<Rightarrow> 'a list" where
  "firsts [] = []"
| "firsts (x # xs) = x # filter (\<lambda>y. y \<noteq> x) (firsts xs)"

definition nameText :: "jval \<Rightarrow> string" where
  "nameText v = (case getProp v ''name'' of None \<Rightarrow> [] | Some n \<Rightarrow> if truthy n then toStr n else [])"

text \<open>
  The entries on which the parser is shown to keep the contract. A string of the format
  \<open>Name <email>\<close> is plain when the name, the text before the last \<open><\<close>, has no line
  break, and the email is not empty and has no \<open>>\<close>; every other string is plain. An
  object is plain when its email is a string without angle brackets and its name has no
  line break.
\<close>

fun plainEntry :: "jval \<Rightarrow> bool" where
  "plainEntry (JStr s) =
     (if angled (trim s)
      then \<not> list_ex isLineTerminator (beforeLast CHR ''<'' (butlast (trim s))) \<and>
           afterLast CHR ''<'' (butlast (trim s)) \<noteq> [] \<and>
           \<not> list_ex (\<lambda>c. c = CHR ''>'') (afterLast CHR ''<'' (butlast (trim s)))
      else True)"
| "plainEntry (JObj kvs) =
     (case map_of kvs ''email'' of
        None \<Rightarrow> True
      | Some (JStr e) \<Rightarrow>
          \<not> list_ex (\<lambda>c. c = CHR ''<'' \<or> c = CHR ''>'') e \<and>
          \<not> list_ex isLineTerminator (nameText (JObj kvs))
      | Some other \<Rightarrow> False)"
| "plainEntry v = True"

text \<open>The email that the loop reads from an entry, when it keeps the entry.\<close>

definition readEmail :: "string \<Rightarrow> string option" where
  "readEmail raw0 = map_option recEmail (parseEntry raw0)"

definition keyed :: "(string \<times> recipient) list \<Rightarrow> bool" where
  "keyed acc = list_all (\<lambda>kv. recEmail (snd kv) = fst kv) acc"

text \<open>A string entry whose name has a carriage return.\<close>

definition exTwoLineString :: string where
  "exTwoLineString = [CHR ''A'', CHR 0x0D, CHR ''B''] @ '' <a@b.co>''"

section \<open>Properties of the handlers\<close>

lemma signers_voidAll: "signers (voidAll env) = map (\<lambda>s. s\<lparr>status := VOIDED\<rparr>) (signers env)"
  by (simp add: voidAll_def)

lemma documentStatus_voidAll: "documentStatus (voidAll env) = VOIDED"
  by (simp add: voidAll_def)

lemma signers_markCompleted:
  "signers (markCompleted cfg now fname k env) =
     (signers env)[k := (signers env ! k)\<lparr>status := COMPLETED, completedAt := Some now\<rparr>]"
  by (simp add: markCompleted_def Let_def)

lemma signedPdf_markCompleted:
  "signedPdf (markCompleted cfg now fname k env) = BASE_URL cfg @ ''/storage/signed/'' @ fname"
  by (simp add: markCompleted_def Let_def)

lemma documentStatus_markCompleted:
  "documentStatus (markCompleted cfg now fname k env) =
     (if list_all (\<lambda>s. status s = COMPLETED) (signers (markCompleted cfg now fname k env))
      then COMPLETED else documentStatus env)"
  by (simp add: markCompleted_def Let_def)

lemma signers_markDelivered:
  "signers (markDelivered now k env) =
     (if status (signers env ! k) = SENT
      then (signers env)[k := (signers env ! k)\<lparr>status := DELIVERED, deliveredAt := Some now\<rparr>]
      else signers env)"
  by (simp add: markDelivered_def Let_def)

lemma documentStatus_markDelivered:
  "documentStatus (markDelivered now k env) =
     (if status (signers env ! k) = SENT \<and>
         list_all (\<lambda>s. status s = DELIVERED \<or> status s = COMPLETED) (signers (markDelivered now k env))
      then DELIVERED else documentStatus env)"
  by (simp add: markDelivered_def Let_def)

lemma findById_Some: "findById st i = Some env \<Longrightarrow> \<exists>k. i = Some k \<and> st k = Some env"
  by (cases i) (simp_all add: findById_def)

lemma getByToken_effect:
  assumes "st k = Some env"
  shows "\<exists>e. effect_of (ByToken now token) e \<and> in_range e env \<and>
             snd (getByToken cfg now token st) k = Some (apply_effect cfg e env)"
proof (cases "verifyJWT cfg now token")
  case (Inl r)
  then have "snd (getByToken cfg now token st) k = Some (apply_effect cfg Unchanged env)"
    using assms by (simp add: getByToken_def)
  then show ?thesis by (intro exI[of _ Unchanged]) simp
next
  case (Inr req)
  show ?thesis
  proof (cases "findById st (envId req)")
    case None
    then have "snd (getByToken cfg now token st) k = Some (apply_effect cfg Unchanged env)"
      using assms Inr by (simp add: getByToken_def)
    then show ?thesis by (intro exI[of _ Unchanged]) simp
  next
    case (Some env0)
    then obtain k0 where k0: "envId req = Some k0" "st k0 = Some env0"
      using findById_Some by blast
    then have id: "the_id req = k0" by (simp add: the_id_def)
    show ?thesis
    proof (cases "signerIdx req env0 < 0 \<or> signerIdx req env0 \<ge> int (length (signers env0))")
      case True
      then have "snd (getByToken cfg now token st) k = Some (apply_effect cfg Unchanged env)"
        using assms Inr Some by (simp add: getByToken_def Let_def)
      then show ?thesis by (intro exI[of _ Unchanged]) simp
    next
      case False
      then have st': "snd (getByToken cfg now token st) =
                  st(k0 \<mapsto> markDelivered now (nat (signerIdx req env0)) env0)"
        using Inr Some id by (simp add: getByToken_def Let_def)
      show ?thesis
      proof (cases "k = k0")
        case True
        then have "env0 = env" using k0 assms by simp
        then show ?thesis using st' True False
          by (intro exI[of _ "Delivered now (nat (signerIdx req env0))"]) auto
      next
        case False
        then show ?thesis using st' assms by (intro exI[of _ Unchanged]) simp
      qed
    qed
  qed
qed


lemma complete_effect:
  assumes "st k = Some env"
  shows "\<exists>e. effect_of (Complete now token upload) e \<and> in_range e env \<and>
             snd (complete cfg now token upload st) k = Some (apply_effect cfg e env)"
proof -
  have unchanged: "snd (complete cfg now token upload st) = st \<Longrightarrow> ?thesis"
    using assms by (intro exI[of _ Unchanged]) simp
  show ?thesis
  proof (cases "verifyJWT cfg now token")
    case (Inl r)
    then show ?thesis by (intro unchanged) (simp add: complete_def)
  next
    case (Inr req)
    show ?thesis
    proof (cases upload)
      case None
      then show ?thesis using Inr by (intro unchanged) (simp add: complete_def)
    next
      case (Some fname)
      note upload = this
      show ?thesis
      proof (cases "findById st (envId req)")
        case None
        then show ?thesis using Inr upload by (intro unchanged) (simp add: complete_def)
      next
        case (Some env0)
        then obtain k0 where k0: "envId req = Some k0" "st k0 = Some env0"
          using findById_Some by blast
        then have id: "the_id req = k0" by (simp add: the_id_def)
        show ?thesis
        proof (cases "signerIdx req env0 < 0 \<or> signerIdx req env0 \<ge> int (length (signers env0))")
          case True
          then show ?thesis using Inr upload Some
            by (intro unchanged) (simp add: complete_def Let_def)
        next
          case False
          then have st': "snd (complete cfg now token upload st) =
                      st(k0 \<mapsto> markCompleted cfg now fname (nat (signerIdx req env0)) env0)"
            using Inr Some upload id by (simp add: complete_def Let_def)
          show ?thesis
          proof (cases "k = k0")
            case True
            then have "env0 = env" using k0 assms by simp
            then show ?thesis using st' True False upload
              by (intro exI[of _ "Completed now fname (nat (signerIdx req env0))"]) auto
          next
            case False
            then show ?thesis using st' assms by (intro exI[of _ Unchanged]) simp
          qed
        qed
      qed
    qed
  qed
qed

lemma cancel_effect:
  assumes "st k = Some env"
  shows "\<exists>e. effect_of (Cancel now token) e \<and> in_range e env \<and>
             snd (cancel cfg now token st) k = Some (apply_effect cfg e env)"
proof -
  have unchanged: "snd (cancel cfg now token st) = st \<Longrightarrow> ?thesis"
    using assms by (intro exI[of _ Unchanged]) simp
  show ?thesis
  proof (cases "verifyJWT cfg now token")
    case (Inl r)
    then show ?thesis by (intro unchanged) (simp add: cancel_def)
  next
    case (Inr req)
    show ?thesis
    proof (cases "findById st (envId req)")
      case None
      then show ?thesis using Inr by (intro unchanged) (simp add: cancel_def)
    next
      case (Some env0)
      then obtain k0 where k0: "envId req = Some k0" "st k0 = Some env0"
        using findById_Some by blast
      then have id: "the_id req = k0" by (simp add: the_id_def)
      have st': "snd (cancel cfg now token st) = st(k0 \<mapsto> voidAll env0)"
        using Inr Some id by (simp add: cancel_def)
      show ?thesis
      proof (cases "k = k0")
        case True
        then have "env0 = env" using k0 assms by simp
        then show ?thesis using st' True by (intro exI[of _ Voided]) auto
      next
        case False
        then show ?thesis using st' assms by (intro exI[of _ Unchanged]) simp
      qed
    qed
  qed
qed

lemma generateTemplate_store:
  "snd (generateTemplate cfg w now f st) = st \<or>
   (st (newId w) = None \<and> (\<exists>env. snd (generateTemplate cfg w now f st) = st(newId w \<mapsto> env)))"
  by (auto simp: generateTemplate_def Let_def split: option.splits)

lemma generateTemplate_effect:
  assumes "st k = Some env"
  shows "snd (generateTemplate cfg w now f st) k = Some env"
  using generateTemplate_store [of cfg w now f st] assms by auto

lemma handle_effect:
  assumes "st k = Some env"
  shows "\<exists>e. effect_of c e \<and> in_range e env \<and>
             snd (handle cfg c st) k = Some (apply_effect cfg e env)"
proof (cases c)
  case (Generate w now f)
  then have "snd (handle cfg c st) k = Some (apply_effect cfg Unchanged env)"
    using assms by (simp add: generateTemplate_effect)
  then show ?thesis by (intro exI[of _ Unchanged]) simp
next
  case (ByToken now token)
  then show ?thesis using assms getByToken_effect [of st k env] by simp
next
  case (Complete now token upload)
  then show ?thesis using assms complete_effect [of st k env] by simp
next
  case (Cancel now token)
  then show ?thesis using assms cancel_effect [of st k env] by simp
qed


lemma run_related:
  assumes refl: "\<And>a. R a a"
    and trans: "\<And>a b c. R a b \<Longrightarrow> R b c \<Longrightarrow> R a c"
    and step: "\<And>c e a. c \<in> set cs \<Longrightarrow> effect_of c e \<Longrightarrow> in_range e a \<Longrightarrow>
                 R a (apply_effect cfg e a)"
    and "st k = Some env"
  shows "\<exists>env'. run cfg cs st k = Some env' \<and> R env env'"
  using step \<open>st k = Some env\<close>
proof (induction cs arbitrary: st env)
  case Nil
  then show ?case using refl by simp
next
  case (Cons c cs)
  obtain e where e: "effect_of c e" "in_range e env"
    "snd (handle cfg c st) k = Some (apply_effect cfg e env)"
    using handle_effect [of st k env c cfg] Cons.prems(2) by blast
  have first: "R env (apply_effect cfg e env)"
    using e by (intro Cons.prems(1) [of c e env]) simp_all
  have rest: "\<And>c' e' a. c' \<in> set cs \<Longrightarrow> effect_of c' e' \<Longrightarrow> in_range e' a \<Longrightarrow>
                 R a (apply_effect cfg e' a)"
    using Cons.prems(1) by (meson list.set_intros(2))
  have "\<exists>env'. run cfg cs (snd (handle cfg c st)) k = Some env' \<and>
          R (apply_effect cfg e env) env'"
    using rest e(3) by (rule Cons.IH)
  then show ?case using first trans by auto
qed

lemma nth_update_if: "j < length xs \<Longrightarrow> xs[k := y] ! j = (if j = k then y else xs ! j)"
  by (cases "j = k") auto

lemma length_apply_effect: "length (signers (apply_effect cfg e env)) = length (signers env)"
  by (cases e) (simp_all add: signers_markDelivered signers_markCompleted signers_voidAll)

lemma status_apply_effect:
  assumes "j < length (signers env)"
  shows "status (signers (apply_effect cfg e env) ! j) =
     (case e of
        Unchanged \<Rightarrow> status (signers env ! j)
      | Delivered now k \<Rightarrow>
          if j = k \<and> status (signers env ! j) = SENT then DELIVERED else status (signers env ! j)
      | Completed now fname k \<Rightarrow> if j = k then COMPLETED else status (signers env ! j)
      | Voided \<Rightarrow> VOIDED)"
  using assms
  by (cases e)
     (auto simp: signers_markDelivered signers_markCompleted signers_voidAll nth_update_if)




lemma documentStatus_apply_effect:
  "documentStatus (apply_effect cfg e env) =
     (case e of
        Unchanged \<Rightarrow> documentStatus env
      | Delivered now k \<Rightarrow>
          if status (signers env ! k) = SENT \<and>
             list_all (\<lambda>s. status s = DELIVERED \<or> status s = COMPLETED)
               (signers (apply_effect cfg e env))
          then DELIVERED else documentStatus env
      | Completed now fname k \<Rightarrow>
          if list_all (\<lambda>s. status s = COMPLETED) (signers (apply_effect cfg e env))
          then COMPLETED else documentStatus env
      | Voided \<Rightarrow> VOIDED)"
  by (cases e)
     (simp_all add: documentStatus_markDelivered documentStatus_markCompleted
        documentStatus_voidAll)

lemma moves_refl: "moves s s"
  by (simp add: moves_def)

lemma moves_trans: "moves a b \<Longrightarrow> moves b c \<Longrightarrow> moves a c"
  by (auto simp: moves_def)

lemma complete_ok:
  assumes "verifyJWT cfg now token = Inr req" and "findById st (envId req) = Some env"
    and "0 \<le> signerIdx req env" and "signerIdx req env < int (length (signers env))"
  shows "complete cfg now token (Some fname) st =
           (reply 200 (CompletedBody
              (signedPdf (markCompleted cfg now fname (nat (signerIdx req env)) env))
              (the_id req) (signerIdx req env)
              (email (signers (markCompleted cfg now fname (nat (signerIdx req env)) env) !
                 nat (signerIdx req env)))
              (documentStatus (markCompleted cfg now fname (nat (signerIdx req env)) env))),
            st(the_id req \<mapsto> markCompleted cfg now fname (nat (signerIdx req env)) env))"
  using assms by (simp add: complete_def Let_def)

lemma list_all_nth: "list_all P xs = (\<forall>j < length xs. P (xs ! j))"
  by (simp add: list_all_length)

lemma rank_of_moves: "moves s s' \<Longrightarrow> s \<noteq> VOIDED \<Longrightarrow> s' \<noteq> VOIDED \<Longrightarrow> chainRank s \<le> chainRank s'"
  by (cases s; cases s') (simp_all add: moves_def)

lemma two_list: "length xs = 2 \<Longrightarrow> \<exists>a b. xs = [a, b]"
  by (cases xs; cases "tl xs") auto


lemma getByToken_absent: "st k = None \<Longrightarrow> snd (getByToken cfg now token st) k = None"
  by (auto simp: getByToken_def Let_def findById_def the_id_def split: sum.splits option.splits)

lemma complete_absent: "st k = None \<Longrightarrow> snd (complete cfg now token upload st) k = None"
  by (auto simp: complete_def Let_def findById_def the_id_def split: sum.splits option.splits)

lemma cancel_absent: "st k = None \<Longrightarrow> snd (cancel cfg now token st) k = None"
  by (auto simp: cancel_def Let_def findById_def the_id_def split: sum.splits option.splits)

lemma signers_attachLinks:
  "signers (attachLinks cfg now eid env) =
     map (\<lambda>(i, s). s\<lparr>signedUrl := SignLink (BASE_URL cfg) (mintToken cfg now eid s i)\<rparr>)
       (enumerate 0 (signers env))"
  by (simp add: attachLinks_def Let_def)








lemma all_less_two: "(\<forall>j < (2::nat). P j) = (P 0 \<and> P 1)"
  by (auto simp: less_Suc_eq numeral_2_eq_2)

subsection \<open>Creation\<close>

lemma generateFiles_none_exist:
  "list_all (\<lambda>t. \<not> tplExists w (toStr t)) ts \<Longrightarrow> generateFiles cfg w n ts = Some []"
  by (induction ts arbitrary: n) (simp_all add: Let_def)

lemma nth_attachLinks:
  assumes "i < length (signers env)"
  shows "signers (attachLinks cfg now eid env) ! i =
           (signers env ! i)\<lparr>signedUrl :=
              SignLink (BASE_URL cfg) (mintToken cfg now eid (signers env ! i) i)\<rparr>"
  using assms by (simp add: signers_attachLinks nth_enumerate_eq)

lemma email_attachLinks:
  "map email (signers (attachLinks cfg now eid env)) = map email (signers env)"
  by (auto simp: signers_attachLinks list_eq_iff_nth_eq nth_enumerate_eq)

lemma status_attachLinks:
  "map status (signers (attachLinks cfg now eid env)) = map status (signers env)"
  by (auto simp: signers_attachLinks list_eq_iff_nth_eq nth_enumerate_eq)

lemma documentStatus_attachLinks:
  "documentStatus (attachLinks cfg now eid env) = documentStatus env"
  by (simp add: attachLinks_def Let_def)

lemma files_attachLinks: "files (attachLinks cfg now eid env) = files env"
  by (simp add: attachLinks_def Let_def)

subsection \<open>The recipient parser\<close>

lemma set_firsts: "set (firsts xs) = set xs"
  by (induction xs) auto

lemma distinct_firsts: "distinct (firsts xs)"
  by (induction xs) (auto simp: set_firsts)

lemma length_firsts: "length (firsts xs) = card (set xs)"
  using distinct_card [OF distinct_firsts, of xs] by (simp add: set_firsts)

lemma matchAngle_built:
  assumes "\<not> list_ex isLineTerminator pre" and "e \<noteq> []"
    and "\<not> list_ex (\<lambda>c. c = CHR ''<'' \<or> c = CHR ''>'') e"
  shows "matchAngle (pre @ CHR ''<'' # e @ ''>'') = Some (pre, e)"
proof -
  let ?raw = "pre @ CHR ''<'' # e @ ''>''"
  let ?inner = "pre @ CHR ''<'' # e"
  let ?n = "length pre"
  let ?fits = "\<lambda>p. ?inner ! p = CHR ''<'' \<and> \<not> list_ex isLineTerminator (take p ?inner) \<and>
                   drop (Suc p) ?inner \<noteq> [] \<and>
                   \<not> list_ex (\<lambda>c. c = CHR ''>'') (drop (Suc p) ?inner)"
  have inner: "butlast ?raw = ?inner"
    by (simp add: butlast_append)
  have e: "\<forall>c \<in> set e. c \<noteq> CHR ''<'' \<and> c \<noteq> CHR ''>''"
    using assms(3) by (auto simp: list_ex_iff)
  have split: "[0..<length ?inner] = [0..<?n] @ ?n # [Suc ?n..<Suc ?n + length e]"
  proof -
    have "[0..<length ?inner] = [0..<?n + (Suc (length e))]" by simp
    also have "\<dots> = [0..<?n] @ [?n..<?n + Suc (length e)]"
      by (simp only: upt_add_eq_append [OF le0])
    also have "[?n..<?n + Suc (length e)] = ?n # [Suc ?n..<Suc ?n + length e]"
      using upt_conv_Cons [of ?n "?n + Suc (length e)"] by (simp del: upt_Suc)
    finally show ?thesis .
  qed
  have high: "filter ?fits (rev [Suc ?n..<Suc ?n + length e]) = []"
  proof -
    have "\<not> ?fits p" if "p \<in> set [Suc ?n..<Suc ?n + length e]" for p
    proof -
      have "?n < p" "p - Suc ?n < length e" using that by auto
      then have "?inner ! p = e ! (p - Suc ?n)"
        by (simp add: nth_append nth_Cons')
      moreover have "e ! (p - Suc ?n) \<in> set e" using \<open>p - Suc ?n < length e\<close> by simp
      ultimately show ?thesis using e by auto
    qed
    then show ?thesis by (simp add: filter_empty_conv)
  qed
  have at: "?fits ?n"
    using assms by (auto simp: list_ex_iff)
  have "filter ?fits (rev [0..<length ?inner]) = ?n # filter ?fits (rev [0..<?n])"
    unfolding split using high at by (simp del: upt_Suc)
  then show ?thesis
    unfolding matchAngle_def inner Let_def by (simp del: upt_Suc)
qed

lemma trim_built:
  "trim (n @ '' <'' @ e @ ''>'') = dropWhile isSpace (n @ '' '') @ CHR ''<'' # e @ ''>''"
proof -
  have ns: "\<not> isSpace CHR ''<''" "\<not> isSpace CHR ''>''" by (simp_all add: isSpace_def)
  have "dropWhile isSpace (n @ '' <'' @ e @ ''>'') =
        dropWhile isSpace ((n @ '' '') @ CHR ''<'' # e @ ''>'')" by simp
  also have "\<dots> = dropWhile isSpace (n @ '' '') @ CHR ''<'' # e @ ''>''"
    using ns(1) by (rule dropWhile_append3)
  finally have l: "dropWhile isSpace (n @ '' <'' @ e @ ''>'') =
      dropWhile isSpace (n @ '' '') @ CHR ''<'' # e @ ''>''" .
  show ?thesis
    unfolding trim_def l using ns(2) by simp
qed

lemma no_terminator_pre:
  assumes "\<not> list_ex isLineTerminator n"
  shows "\<not> list_ex isLineTerminator (dropWhile isSpace (n @ '' ''))"
proof -
  have "set (dropWhile isSpace (n @ '' '')) \<subseteq> set (n @ '' '')"
    by (auto dest: set_dropWhileD)
  moreover have "\<not> isLineTerminator CHR '' ''" by (simp add: isLineTerminator_def)
  ultimately show ?thesis using assms by (auto simp: list_ex_iff)
qed

lemma emailRegex_Nil: "\<not> emailRegex []"
  by (simp add: emailRegex_def)

lemma toLowerCase_Nil: "toLowerCase [] = []"
  by (simp add: toLowerCase_def)

lemma split_at_last:
  assumes "x \<in> set s"
  shows "s = beforeLast x s @ x # afterLast x s" and "x \<notin> set (afterLast x s)"
proof -
  let ?tw = "takeWhile (\<lambda>c. c \<noteq> x) (rev s)"
  let ?dw = "dropWhile (\<lambda>c. c \<noteq> x) (rev s)"
  have dw: "?dw \<noteq> []" using assms by (simp add: dropWhile_eq_Nil_conv)
  have "\<not> hd ?dw \<noteq> x" using dw by (rule hd_dropWhile)
  then have "?dw = x # tl ?dw" using dw by (cases ?dw) simp_all
  then have "?tw @ x # tl ?dw = ?tw @ ?dw" by simp
  also have "\<dots> = rev s" by (rule takeWhile_dropWhile_id)
  finally have "rev (?tw @ x # tl ?dw) = rev (rev s)" by (rule arg_cong)
  then show "s = beforeLast x s @ x # afterLast x s"
    by (simp add: beforeLast_def afterLast_def)
  show "x \<notin> set (afterLast x s)"
    by (auto simp: afterLast_def dest: set_takeWhileD)
qed

lemma matchAngle_angled:
  assumes "\<not> angled t"
  shows "matchAngle t = None"
proof (cases "t = [] \<or> last t \<noteq> CHR ''>''")
  case True
  then show ?thesis by (auto simp: matchAngle_def)
next
  case False
  then have no: "CHR ''<'' \<notin> set t" using assms by (auto simp: angled_def list_ex_iff)
  have "set (butlast t) \<subseteq> set t" by (auto dest: in_set_butlastD)
  then have "butlast t ! p \<noteq> CHR ''<''" if "p < length (butlast t)" for p
    using no nth_mem [OF that] by auto
  then have "filter (\<lambda>p. butlast t ! p = CHR ''<'' \<and> Q p) (rev [0..<length (butlast t)]) = []"
    for Q
    by (simp add: filter_empty_conv del: upt_Suc)
  then show ?thesis
    using False unfolding matchAngle_def Let_def by simp
qed

lemma matchAngle_plain:
  assumes "angled t"
    and "\<not> list_ex isLineTerminator (beforeLast CHR ''<'' (butlast t))"
    and "afterLast CHR ''<'' (butlast t) \<noteq> []"
    and "\<not> list_ex (\<lambda>c. c = CHR ''>'') (afterLast CHR ''<'' (butlast t))"
  shows "matchAngle t = Some (beforeLast CHR ''<'' (butlast t), afterLast CHR ''<'' (butlast t))"
proof -
  let ?pre = "beforeLast CHR ''<'' (butlast t)"
  let ?e = "afterLast CHR ''<'' (butlast t)"
  have t: "t = butlast t @ ''>''"
    using assms(1) append_butlast_last_id [of t] by (simp add: angled_def)
  have "CHR ''<'' \<in> set t" using assms(1) by (auto simp: angled_def list_ex_iff)
  then have "CHR ''<'' \<in> set (butlast t @ ''>'')" using t by simp
  then have inn: "CHR ''<'' \<in> set (butlast t)" by simp
  have b: "butlast t = ?pre @ CHR ''<'' # ?e" by (rule split_at_last(1) [OF inn])
  have "CHR ''<'' \<notin> set ?e" by (rule split_at_last(2) [OF inn])
  then have e: "\<not> list_ex (\<lambda>c. c = CHR ''<'' \<or> c = CHR ''>'') ?e"
    using assms(4) by (auto simp: list_ex_iff)
  have "matchAngle (?pre @ CHR ''<'' # ?e @ ''>'') = Some (?pre, ?e)"
    by (rule matchAngle_built [OF assms(2,3) e])
  moreover have "?pre @ CHR ''<'' # ?e @ ''>'' = t"
  proof -
    have "?pre @ CHR ''<'' # ?e @ ''>'' = (?pre @ CHR ''<'' # ?e) @ ''>''" by simp
    also have "\<dots> = butlast t @ ''>''" by (simp only: b [symmetric])
    also have "\<dots> = t" by (rule t [symmetric])
    finally show ?thesis .
  qed
  ultimately show ?thesis by simp
qed

lemma readEmail_string:
  assumes "plainEntry (JStr s)"
  shows "readEmail s =
     (if emailRegex (normalEmail (entryEmail (JStr s)))
      then Some (normalEmail (entryEmail (JStr s))) else None)"
proof (cases "angled (trim s)")
  case True
  then have ne: "trim s \<noteq> []" by (simp add: angled_def)
  have m: "matchAngle (trim s) =
      Some (beforeLast CHR ''<'' (butlast (trim s)), afterLast CHR ''<'' (butlast (trim s)))"
    using assms True by (intro matchAngle_plain) simp_all
  show ?thesis
    using True ne m by (simp add: readEmail_def parseEntry_def normalEmail_def Let_def)
next
  case False
  then have m: "matchAngle (trim s) = None" by (rule matchAngle_angled)
  show ?thesis
  proof (cases "trim s = []")
    case True
    then show ?thesis
      using False by (simp add: readEmail_def parseEntry_def normalEmail_def toLowerCase_Nil
                            emailRegex_Nil)
  next
    case ne: False
    then show ?thesis
      using False m by (simp add: readEmail_def parseEntry_def normalEmail_def Let_def)
  qed
qed

lemma entryString_other:
  assumes "\<And>s. v \<noteq> JStr s" and "\<And>kvs. v \<noteq> JObj kvs"
  shows "entryString v = None" and "entryEmail v = []"
  using assms by (cases v; simp)+

lemma readEmail_object:
  assumes "plainEntry (JObj kvs)"
  shows "(case entryString (JObj kvs) of None \<Rightarrow> None
          | Some s \<Rightarrow> if s = [] then None else readEmail s) =
     (if emailRegex (normalEmail (entryEmail (JObj kvs)))
      then Some (normalEmail (entryEmail (JObj kvs))) else None)"
proof (cases "map_of kvs ''email''")
  case None
  then show ?thesis
    by (simp add: normalEmail_def trim_def toLowerCase_Nil emailRegex_Nil)
next
  case (Some x)
  then obtain e where x: "x = JStr e"
    using assms by (cases x) simp_all
  show ?thesis
  proof (cases "e = []")
    case True
    then show ?thesis using Some x
      by (simp add: normalEmail_def trim_def toLowerCase_Nil emailRegex_Nil)
  next
    case False
    let ?n = "nameText (JObj kvs)"
    let ?pre = "dropWhile isSpace (?n @ '' '')"
    have plain: "\<not> list_ex (\<lambda>c. c = CHR ''<'' \<or> c = CHR ''>'') e"
      "\<not> list_ex isLineTerminator ?n"
      using assms Some x by simp_all
    have str: "entryString (JObj kvs) = Some (?n @ '' <'' @ e @ ''>'')"
      using Some x False by (simp add: nameText_def split: option.splits)
    have m: "matchAngle (trim (?n @ '' <'' @ e @ ''>'')) = Some (?pre, e)"
      unfolding trim_built
      by (rule matchAngle_built [OF no_terminator_pre [OF plain(2)] False plain(1)])
    have ne: "trim (?n @ '' <'' @ e @ ''>'') \<noteq> []"
      unfolding trim_built by simp
    have "readEmail (?n @ '' <'' @ e @ ''>'') =
        (if emailRegex (toLowerCase (trim e)) then Some (toLowerCase (trim e)) else None)"
      using m ne by (simp add: readEmail_def parseEntry_def Let_def)
    then show ?thesis
      using str Some x by (simp add: normalEmail_def)
  qed
qed

lemma readEmail_entry:
  assumes "plainEntry v"
  shows "(case entryString v of None \<Rightarrow> None
          | Some s \<Rightarrow> if s = [] then None else readEmail s) =
     (if emailRegex (normalEmail (entryEmail v)) then Some (normalEmail (entryEmail v)) else None)"
proof (cases v)
  case (JStr s)
  have "readEmail [] = None"
    by (simp add: readEmail_def parseEntry_def trim_def)
  then have "(case entryString v of None \<Rightarrow> None
          | Some s \<Rightarrow> if s = [] then None else readEmail s) = readEmail s"
    using JStr by simp
  also have "\<dots> = (if emailRegex (normalEmail (entryEmail (JStr s)))
      then Some (normalEmail (entryEmail (JStr s))) else None)"
    using assms unfolding JStr by (rule readEmail_string)
  finally show ?thesis unfolding JStr .
next
  case (JObj kvs)
  then show ?thesis using assms readEmail_object by simp
qed (simp_all add: normalEmail_def trim_def toLowerCase_Nil emailRegex_Nil)

lemma keyed_emails: "keyed acc \<Longrightarrow> map recEmail (map snd acc) = map fst acc"
  by (induction acc) (simp_all add: keyed_def)

lemma uniqAdd_keys:
  assumes "keyed acc"
  shows "keyed (uniqAdd acc raw)"
    and "map fst (uniqAdd acc raw) =
           (case readEmail raw of
              None \<Rightarrow> map fst acc
            | Some e \<Rightarrow> if e \<in> set (map fst acc) then map fst acc else map fst acc @ [e])"
proof -
  have has: "(map_of acc k \<noteq> None) = (k \<in> set (map fst acc))" for k
    by (simp add: map_of_eq_None_iff)
  show "keyed (uniqAdd acc raw)"
    using assms by (cases "parseEntry raw") (simp_all add: uniqAdd_def keyed_def)
  show "map fst (uniqAdd acc raw) =
           (case readEmail raw of
              None \<Rightarrow> map fst acc
            | Some e \<Rightarrow> if e \<in> set (map fst acc) then map fst acc else map fst acc @ [e])"
    using has by (cases "parseEntry raw") (simp_all add: uniqAdd_def readEmail_def)
qed

lemma filter_seen:
  "e \<in> A \<Longrightarrow> filter (\<lambda>x. x \<notin> A) (filter (\<lambda>y. y \<noteq> e) xs) = filter (\<lambda>x. x \<notin> A) xs"
  by (induction xs) auto

lemma filter_new:
  "filter (\<lambda>x. x \<notin> insert e A) xs = filter (\<lambda>x. x \<notin> A) (filter (\<lambda>y. y \<noteq> e) xs)"
  by (induction xs) auto

lemma foldl_uniqAdd_keys:
  assumes "keyed acc"
  shows "keyed (foldl uniqAdd acc raws) \<and>
         map fst (foldl uniqAdd acc raws) =
           map fst acc @
           filter (\<lambda>e. e \<notin> set (map fst acc)) (firsts (List.map_filter readEmail raws))"
  using assms
proof (induction raws arbitrary: acc)
  case Nil
  then show ?case by (simp add: List.map_filter_simps)
next
  case (Cons raw raws)
  note step = uniqAdd_keys [OF Cons.prems, of raw]
  note ih = Cons.IH [OF step(1)]
  show ?case
  proof (cases "readEmail raw")
    case None
    then have "map fst (uniqAdd acc raw) = map fst acc" using step(2) by simp
    then show ?thesis using ih None by (simp add: List.map_filter_simps)
  next
    case (Some e)
    show ?thesis
    proof (cases "e \<in> set (map fst acc)")
      case True
      then have "map fst (uniqAdd acc raw) = map fst acc" using step(2) Some by simp
      then show ?thesis
        using ih Some True filter_seen [of e "set (map fst acc)"]
        by (simp add: List.map_filter_simps)
    next
      case False
      then have "map fst (uniqAdd acc raw) = map fst acc @ [e]" using step(2) Some by simp
      then show ?thesis
        using ih Some False filter_new [of e "set (map fst acc)"]
        by (simp add: List.map_filter_simps)
    qed
  qed
qed

lemma parseRecipients_emails:
  "map recEmail (parseRecipients parse input) =
     firsts (List.map_filter readEmail (recipientList parse input))"
proof -
  have k: "keyed []" by (simp add: keyed_def)
  note f = foldl_uniqAdd_keys [OF k, of "recipientList parse input"]
  have "map recEmail (parseRecipients parse input) =
      map fst (foldl uniqAdd [] (recipientList parse input))"
    unfolding parseRecipients_def by (rule keyed_emails) (rule conjunct1 [OF f])
  also have "\<dots> = firsts (List.map_filter readEmail (recipientList parse input))"
    using conjunct2 [OF f] by simp
  finally show ?thesis .
qed

lemma read_strings:
  assumes "list_all plainEntry (map JStr raws)"
  shows "List.map_filter readEmail raws = validEmails (map JStr raws)"
  using assms
proof (induction raws)
  case Nil
  then show ?case by (simp add: List.map_filter_simps validEmails_def)
next
  case (Cons raw raws)
  then have ih: "List.map_filter readEmail raws = validEmails (map JStr raws)"
    and p: "plainEntry (JStr raw)" by simp_all
  show ?case
    using ih readEmail_string [OF p]
    by (simp add: List.map_filter_simps validEmails_def del: entryEmail.simps plainEntry.simps)
qed

lemma read_entries:
  assumes "list_all plainEntry vs"
  shows "List.map_filter readEmail (filter (\<lambda>x. x \<noteq> []) (List.map_filter entryString vs))
           = validEmails vs"
  using assms
proof (induction vs)
  case Nil
  then show ?case by (simp add: List.map_filter_simps validEmails_def)
next
  case (Cons v vs)
  then have ih: "List.map_filter readEmail (filter (\<lambda>x. x \<noteq> []) (List.map_filter entryString vs))
           = validEmails vs" and v: "plainEntry v" by simp_all
  note one = readEmail_entry [OF v]
  show ?case
  proof (cases "entryString v")
    case None
    then show ?thesis using ih one
      by (simp add: List.map_filter_simps validEmails_def del: entryEmail.simps entryString.simps
             split: if_splits)
  next
    case (Some s)
    then show ?thesis using ih one
      by (cases "s = []"; cases "readEmail s")
         (simp_all add: List.map_filter_simps validEmails_def
            del: entryEmail.simps entryString.simps split: if_splits)
  qed
qed

lemma lowerChar_idem: "lowerChar (lowerChar c) = lowerChar c"
proof -
  have "of_char (char_of (of_char c + 32 :: nat)) = (of_char c + 32 :: nat)"
    if "(of_char c :: nat) \<le> 222"
    using that by (simp add: of_char_of)
  then show ?thesis by (auto simp: lowerChar_def Let_def)
qed

lemma toLowerCase_idem: "toLowerCase (toLowerCase s) = toLowerCase s"
  by (simp add: toLowerCase_def lowerChar_idem)

lemma dropWhile_none: "\<forall>x \<in> set xs. \<not> P x \<Longrightarrow> dropWhile P xs = xs"
  by (cases xs) simp_all

lemma trim_no_space:
  assumes "\<not> list_ex isSpace s"
  shows "trim s = s"
proof -
  have a: "\<forall>x \<in> set s. \<not> isSpace x" using assms by (simp add: list_ex_iff)
  then have "dropWhile isSpace s = s" by (rule dropWhile_none)
  moreover have "dropWhile isSpace (rev s) = rev s"
    using a by (intro dropWhile_none) simp
  ultimately show ?thesis by (simp add: trim_def)
qed

lemma emailRegex_parts:
  assumes "emailRegex s"
  shows "\<not> list_ex isSpace (takeWhile (\<lambda>c. c \<noteq> CHR ''@'') s)"
    and "dropWhile (\<lambda>c. c \<noteq> CHR ''@'') s \<noteq> []"
    and "\<not> list_ex (\<lambda>c. isSpace c \<or> c = CHR ''@'') (tl (dropWhile (\<lambda>c. c \<noteq> CHR ''@'') s))"
proof -
  have c: "takeWhile (\<lambda>c. c \<noteq> CHR ''@'') s \<noteq> [] \<and>
      \<not> list_ex isSpace (takeWhile (\<lambda>c. c \<noteq> CHR ''@'') s) \<and>
      dropWhile (\<lambda>c. c \<noteq> CHR ''@'') s \<noteq> [] \<and>
      (\<not> list_ex (\<lambda>c. isSpace c \<or> c = CHR ''@'') (tl (dropWhile (\<lambda>c. c \<noteq> CHR ''@'') s)) \<and>
       list_ex (\<lambda>p. tl (dropWhile (\<lambda>c. c \<noteq> CHR ''@'') s) ! p = CHR ''.'')
         [1..<length (tl (dropWhile (\<lambda>c. c \<noteq> CHR ''@'') s)) - 1])"
    using assms unfolding emailRegex_def Let_def .
  show "\<not> list_ex isSpace (takeWhile (\<lambda>c. c \<noteq> CHR ''@'') s)"
    by (rule conjunct1 [OF conjunct2 [OF c]])
  show "dropWhile (\<lambda>c. c \<noteq> CHR ''@'') s \<noteq> []"
    by (rule conjunct1 [OF conjunct2 [OF conjunct2 [OF c]]])
  show "\<not> list_ex (\<lambda>c. isSpace c \<or> c = CHR ''@'') (tl (dropWhile (\<lambda>c. c \<noteq> CHR ''@'') s))"
    by (rule conjunct1 [OF conjunct2 [OF conjunct2 [OF conjunct2 [OF c]]]])
qed

lemma all_hd_tl: "r \<noteq> [] \<Longrightarrow> \<not> P (hd r) \<Longrightarrow> \<forall>c \<in> set (tl r). \<not> P c \<Longrightarrow> \<forall>c \<in> set r. \<not> P c"
  by (cases r) auto

lemma at_not_space: "c = CHR ''@'' \<Longrightarrow> \<not> isSpace c"
  by (simp add: isSpace_def)

lemma emailRegex_no_space:
  assumes "emailRegex s"
  shows "\<not> list_ex isSpace s"
proof -
  define l where "l = takeWhile (\<lambda>c. c \<noteq> CHR ''@'') s"
  define r where "r = dropWhile (\<lambda>c. c \<noteq> CHR ''@'') s"
  have s: "s = l @ r" unfolding l_def r_def by (rule takeWhile_dropWhile_id [symmetric])
  have l: "\<forall>c \<in> set l. \<not> isSpace c"
    using emailRegex_parts(1) [OF assms] unfolding l_def list_ex_iff by fast
  have r: "r \<noteq> []" using emailRegex_parts(2) [OF assms] unfolding r_def .
  have t: "\<forall>c \<in> set (tl r). \<not> isSpace c"
    using emailRegex_parts(3) [OF assms] unfolding r_def list_ex_iff by fast
  have "\<not> (hd r \<noteq> CHR ''@'')"
    using r unfolding r_def by (rule hd_dropWhile)
  then have "hd r = CHR ''@''" by fast
  then have h: "\<not> isSpace (hd r)" by (rule at_not_space)
  have "\<forall>c \<in> set r. \<not> isSpace c" using r h t by (rule all_hd_tl)
  then have "\<forall>c \<in> set (l @ r). \<not> isSpace c" using l by (simp add: ball_Un)
  then show ?thesis unfolding s [symmetric] list_ex_iff by fast
qed

lemma validEmails_shape:
  assumes "e \<in> set (validEmails vs)"
  shows "emailRegex e \<and> toLowerCase e = e \<and> trim e = e"
proof -
  obtain x where "e = toLowerCase (trim x)" "emailRegex e"
    using assms by (auto simp: validEmails_def normalEmail_def)
  then show ?thesis
    using toLowerCase_idem trim_no_space [OF emailRegex_no_space] by simp
qed

subsection \<open>The aggregate\<close>

lemma specAggregate_nth:
  "specAggregate (map status ss) =
     (if \<forall>j < length ss. status (ss ! j) = VOIDED then VOIDED
      else if \<forall>j < length ss. status (ss ! j) = COMPLETED then COMPLETED
      else if \<forall>j < length ss. opened (status (ss ! j)) then DELIVERED
      else SENT)"
  by (simp add: specAggregate_def list_all_length opened_def)

lemma regular_nth:
  "regular env =
     (0 < length (signers env) \<and>
      documentStatus env = specAggregate (map status (signers env)) \<and>
      (\<forall>j < length (signers env). status (signers env ! j) \<noteq> PENDING) \<and>
      ((\<forall>j < length (signers env). status (signers env ! j) = VOIDED) \<or>
       (\<forall>j < length (signers env). status (signers env ! j) \<noteq> VOIDED)))"
  by (simp add: regular_def list_all_length)

lemma regular_voidAll:
  assumes "regular env"
  shows "regular (voidAll env)"
proof -
  have len: "length (signers (voidAll env)) = length (signers env)"
    by (simp add: signers_voidAll)
  have st: "\<forall>j < length (signers env). status (signers (voidAll env) ! j) = VOIDED"
    by (simp add: signers_voidAll)
  have "specAggregate (map status (signers (voidAll env))) = VOIDED"
    unfolding specAggregate_nth len using st by simp
  then show ?thesis
    using assms st unfolding regular_nth len by (simp add: documentStatus_voidAll)
qed

lemma regular_markDelivered:
  assumes "regular env" and "k < length (signers env)"
  shows "regular (markDelivered now k env)"
proof (cases "status (signers env ! k) = SENT")
  case False
  then show ?thesis using assms(1) by (simp add: markDelivered_def)
next
  case True
  let ?env = "markDelivered now k env"
  have len: "length (signers ?env) = length (signers env)"
    by (simp add: signers_markDelivered)
  have st: "status (signers ?env ! j) = (if j = k then DELIVERED else status (signers env ! j))"
    if "j < length (signers env)" for j
    using that True by (simp add: signers_markDelivered nth_update_if)
  have none: "\<forall>j < length (signers env). status (signers env ! j) \<noteq> VOIDED"
    using assms True by (auto simp: regular_nth)
  have old: "documentStatus env = SENT"
    using assms True by (auto simp: regular_nth specAggregate_nth opened_def)
  have doc: "documentStatus ?env =
      (if \<forall>j < length (signers env). opened (status (signers ?env ! j)) then DELIVERED else SENT)"
    using True old
    by (simp add: documentStatus_markDelivered list_all_length len opened_def)
  have nv: "\<not> (\<forall>j < length (signers env). status (signers ?env ! j) = VOIDED)"
    using assms(2) st by auto
  have nc: "\<not> (\<forall>j < length (signers env). status (signers ?env ! j) = COMPLETED)"
    using assms(2) st by auto
  have "specAggregate (map status (signers ?env)) =
      (if \<forall>j < length (signers env). opened (status (signers ?env ! j)) then DELIVERED else SENT)"
    unfolding specAggregate_nth len by (simp only: nv nc if_False)
  then have "documentStatus ?env = specAggregate (map status (signers ?env))"
    using doc by simp
  moreover have "\<forall>j < length (signers env). status (signers ?env ! j) \<noteq> PENDING"
    using assms(1) st by (simp add: regular_nth)
  moreover have "\<forall>j < length (signers env). status (signers ?env ! j) \<noteq> VOIDED"
    using none st by simp
  moreover have "0 < length (signers env)" by (rule le_less_trans [OF le0 assms(2)])
  ultimately show ?thesis
    unfolding regular_nth len by blast
qed

lemma regular_markCompleted:
  assumes "regular env" and "k < length (signers env)" and "opened (status (signers env ! k))"
  shows "regular (markCompleted cfg now fname k env)"
proof -
  let ?env = "markCompleted cfg now fname k env"
  have len: "length (signers ?env) = length (signers env)"
    by (simp add: signers_markCompleted)
  have st: "status (signers ?env ! j) = (if j = k then COMPLETED else status (signers env ! j))"
    if "j < length (signers env)" for j
    using that by (simp add: signers_markCompleted nth_update_if)
  have none: "\<forall>j < length (signers env). status (signers env ! j) \<noteq> VOIDED"
    using assms by (auto simp: regular_nth opened_def)
  have nv: "\<not> (\<forall>j < length (signers env). status (signers ?env ! j) = VOIDED)"
    using assms(2) st by auto
  have "opened (status (signers ?env ! j)) = opened (status (signers env ! j))"
    if "j < length (signers env)" for j
    using st [OF that] assms(3) by (cases "j = k") (simp_all add: opened_def)
  then have op: "(\<forall>j < length (signers env). opened (status (signers ?env ! j))) =
      (\<forall>j < length (signers env). opened (status (signers env ! j)))"
    by simp
  have old: "documentStatus env =
      (if \<forall>j < length (signers env). status (signers env ! j) = COMPLETED then COMPLETED
       else if \<forall>j < length (signers env). opened (status (signers env ! j)) then DELIVERED
       else SENT)"
    using assms(1,2) none by (auto simp: regular_nth specAggregate_nth)
  have allc: "(\<forall>j < length (signers env). status (signers env ! j) = COMPLETED) \<longrightarrow>
      (\<forall>j < length (signers env). status (signers ?env ! j) = COMPLETED)"
    using st by simp
  have doc: "documentStatus ?env =
      (if \<forall>j < length (signers env). status (signers ?env ! j) = COMPLETED then COMPLETED
       else documentStatus env)"
    by (simp add: documentStatus_markCompleted list_all_length len)
  have "specAggregate (map status (signers ?env)) =
      (if \<forall>j < length (signers env). status (signers ?env ! j) = COMPLETED then COMPLETED
       else if \<forall>j < length (signers env). opened (status (signers env ! j)) then DELIVERED
       else SENT)"
    unfolding specAggregate_nth len by (simp only: nv op if_False)
  moreover have "documentStatus ?env =
      (if \<forall>j < length (signers env). status (signers ?env ! j) = COMPLETED then COMPLETED
       else if \<forall>j < length (signers env). opened (status (signers env ! j)) then DELIVERED
       else SENT)"
  proof (cases "\<forall>j < length (signers env). status (signers ?env ! j) = COMPLETED")
    case True
    then show ?thesis using doc by simp
  next
    case False
    then have nold: "\<not> (\<forall>j < length (signers env). status (signers env ! j) = COMPLETED)"
      using allc by blast
    have d1: "documentStatus ?env = documentStatus env"
      using doc by (simp only: False if_False)
    have d2: "documentStatus env =
        (if \<forall>j < length (signers env). opened (status (signers env ! j)) then DELIVERED
         else SENT)"
      using old by (simp only: nold if_False)
    show ?thesis unfolding d1 by (simp only: False if_False d2)
  qed
  ultimately have "documentStatus ?env = specAggregate (map status (signers ?env))"
    by simp
  moreover have "\<forall>j < length (signers env). status (signers ?env ! j) \<noteq> PENDING"
    using assms(1) st by (simp add: regular_nth)
  moreover have "\<forall>j < length (signers env). status (signers ?env ! j) \<noteq> VOIDED"
    using none st by simp
  moreover have "0 < length (signers env)" by (rule le_less_trans [OF le0 assms(2)])
  ultimately show ?thesis
    unfolding regular_nth len by blast
qed

lemma regular_created:
  assumes "rs \<noteq> []"
  shows "regular (attachLinks cfg now eid
     \<lparr>signers = map (newSigner now f) rs, documentStatus = SENT, files = fs, pdf = p,
      signedPdf = sp, envSignedUrl = u\<rparr>)"
proof -
  let ?env = "attachLinks cfg now eid
     \<lparr>signers = map (newSigner now f) rs, documentStatus = SENT, files = fs, pdf = p,
      signedPdf = sp, envSignedUrl = u\<rparr>"
  have s: "map status (signers ?env) = map (\<lambda>r. SENT) rs"
    by (simp add: status_attachLinks newSigner_def comp_def)
  have "length (signers ?env) = length rs"
    by (simp add: signers_attachLinks)
  then have n: "signers ?env \<noteq> []"
    using assms by (metis length_0_conv)
  have a: "list_all (\<lambda>s. status s = SENT) (signers ?env)"
  proof -
    have "list_all (\<lambda>x. x = SENT) (map status (signers ?env))"
      unfolding s by (simp add: list_all_iff)
    then show ?thesis by (simp add: list_all_iff)
  qed
  have ag: "specAggregate (map (\<lambda>r. SENT) rs) = SENT"
    using assms by (cases rs) (simp_all add: specAggregate_def)
  have "documentStatus ?env = specAggregate (map status (signers ?env))"
    unfolding s ag by (simp add: documentStatus_attachLinks)
  moreover have "list_all (\<lambda>s. status s \<noteq> PENDING) (signers ?env)"
    "list_all (\<lambda>s. status s \<noteq> VOIDED) (signers ?env)"
    using a by (auto simp: list_all_iff)
  ultimately show ?thesis using n by (simp add: regular_def)
qed

lemma generateTemplate_regular:
  assumes "st k = None" and "snd (generateTemplate cfg w now f st) k = Some env"
  shows "regular env"
  using assms regular_created
  by (auto simp: generateTemplate_def Let_def split: option.splits if_splits)

subsection \<open>Single requests\<close>

lemma getByToken_ok:
  assumes "verifyJWT cfg now token = Inr req" and "findById st (envId req) = Some env"
    and "0 \<le> signerIdx req env" and "signerIdx req env < int (length (signers env))"
  shows "snd (getByToken cfg now token st) =
           st(the_id req \<mapsto> markDelivered now (nat (signerIdx req env)) env)"
  using assms by (simp add: getByToken_def Let_def)

lemma cancel_ok:
  assumes "verifyJWT cfg now token = Inr req" and "findById st (envId req) = Some env"
  shows "snd (cancel cfg now token st) = st(the_id req \<mapsto> voidAll env)"
  using assms by (simp add: cancel_def)

lemma found: "envId req = Some k \<Longrightarrow> st k = Some env \<Longrightarrow>
    findById st (envId req) = Some env \<and> the_id req = k"
  by (simp add: findById_def the_id_def)

lemma request_moves:
  assumes "st k = Some env"
  shows "\<exists>env'. snd (handle cfg c st) k = Some env' \<and>
           length (signers env') = length (signers env) \<and>
           (\<forall>j < length (signers env).
              moveBy c (status (signers env ! j)) (status (signers env' ! j)))"
proof -
  obtain e where e: "effect_of c e" "in_range e env"
    "snd (handle cfg c st) k = Some (apply_effect cfg e env)"
    using handle_effect [of st k env c cfg] assms by blast
  have "moveBy c (status (signers env ! j)) (status (signers (apply_effect cfg e env) ! j))"
    if "j < length (signers env)" for j
    using e(1) that
    by (cases c; cases e)
       (auto simp add: status_apply_effect simp del: apply_effect.simps)
  then show ?thesis using e(3) by (simp add: length_apply_effect del: apply_effect.simps)
qed

lemma opening_exact:
  assumes "st k = Some env" and "verifyJWT cfg now token = Inr req" and "envId req = Some k"
    and "0 \<le> signerIdx req env" and "signerIdx req env < int (length (signers env))"
  shows "\<exists>env'. snd (getByToken cfg now token st) k = Some env' \<and>
           length (signers env') = length (signers env) \<and>
           (\<forall>j < length (signers env).
              status (signers env' ! j) =
                (if j = nat (signerIdx req env) \<and> status (signers env ! j) = SENT
                 then DELIVERED else status (signers env ! j))) \<and>
           documentStatus env' =
             (if status (signers env ! nat (signerIdx req env)) = SENT \<and>
                 list_all (\<lambda>s. status s = DELIVERED \<or> status s = COMPLETED) (signers env')
              then DELIVERED else documentStatus env)"
proof -
  let ?e = "markDelivered now (nat (signerIdx req env)) env"
  note f = found [where st = st, OF assms(3,1)]
  have "snd (getByToken cfg now token st) k = Some ?e"
    using getByToken_ok [OF assms(2) conjunct1 [OF f] assms(4,5)] f by simp
  moreover have "length (signers ?e) = length (signers env)"
    by (simp add: signers_markDelivered)
  moreover have "\<forall>j < length (signers env).
      status (signers ?e ! j) =
        (if j = nat (signerIdx req env) \<and> status (signers env ! j) = SENT
         then DELIVERED else status (signers env ! j))"
    by (auto simp: signers_markDelivered nth_update_if)
  moreover have "documentStatus ?e =
      (if status (signers env ! nat (signerIdx req env)) = SENT \<and>
          list_all (\<lambda>s. status s = DELIVERED \<or> status s = COMPLETED) (signers ?e)
       then DELIVERED else documentStatus env)"
    by (rule documentStatus_markDelivered)
  ultimately show ?thesis by blast
qed

lemma completion_exact:
  assumes "st k = Some env" and "verifyJWT cfg now token = Inr req" and "envId req = Some k"
    and "0 \<le> signerIdx req env" and "signerIdx req env < int (length (signers env))"
  shows "\<exists>env'. snd (complete cfg now token (Some fname) st) k = Some env' \<and>
           length (signers env') = length (signers env) \<and>
           (\<forall>j < length (signers env).
              status (signers env' ! j) =
                (if j = nat (signerIdx req env) then COMPLETED else status (signers env ! j))) \<and>
           documentStatus env' =
             (if list_all (\<lambda>s. status s = COMPLETED) (signers env')
              then COMPLETED else documentStatus env)"
proof -
  let ?e = "markCompleted cfg now fname (nat (signerIdx req env)) env"
  note f = found [where st = st, OF assms(3,1)]
  have "snd (complete cfg now token (Some fname) st) k = Some ?e"
    using complete_ok [OF assms(2) conjunct1 [OF f] assms(4,5), of fname] f by simp
  moreover have "length (signers ?e) = length (signers env)"
    by (simp add: signers_markCompleted)
  moreover have "\<forall>j < length (signers env).
      status (signers ?e ! j) =
        (if j = nat (signerIdx req env) then COMPLETED else status (signers env ! j))"
    by (auto simp: signers_markCompleted nth_update_if)
  moreover have "documentStatus ?e =
      (if list_all (\<lambda>s. status s = COMPLETED) (signers ?e)
       then COMPLETED else documentStatus env)"
    by (rule documentStatus_markCompleted)
  ultimately show ?thesis by blast
qed

lemma cancel_exact:
  assumes "st k = Some env" and "verifyJWT cfg now token = Inr req" and "envId req = Some k"
  shows "\<exists>env'. snd (cancel cfg now token st) k = Some env' \<and>
           length (signers env') = length (signers env) \<and>
           (\<forall>j < length (signers env). status (signers env' ! j) = VOIDED) \<and>
           documentStatus env' = VOIDED"
proof -
  note f = found [where st = st, OF assms(3,1)]
  have "snd (cancel cfg now token st) k = Some (voidAll env)"
    using cancel_ok [OF assms(2) conjunct1 [OF f]] f by simp
  then show ?thesis by (simp add: signers_voidAll documentStatus_voidAll)
qed

lemma moves_over_requests:
  assumes "st k = Some env"
  shows "\<exists>env'. run cfg cs st k = Some env' \<and>
           length (signers env') = length (signers env) \<and>
           (\<forall>j < length (signers env).
               moves (status (signers env ! j)) (status (signers env' ! j)) \<and>
               (status (signers env ! j) \<noteq> VOIDED \<and> status (signers env' ! j) \<noteq> VOIDED \<longrightarrow>
                  chainRank (status (signers env ! j)) \<le> chainRank (status (signers env' ! j)))) \<and>
           (\<not> list_ex isComplete cs \<longrightarrow>
              (\<forall>j < length (signers env). status (signers env ! j) = VOIDED \<longrightarrow>
                  status (signers env' ! j) = VOIDED) \<and>
              (voided env \<longrightarrow> voided env'))"
proof -
  define R where "R = (\<lambda>(a::envelope) (b::envelope). length (signers b) = length (signers a) \<and>
      (\<forall>j < length (signers a). moves (status (signers a ! j)) (status (signers b ! j))))"
  define Q where "Q = (\<lambda>(a::envelope) (b::envelope). length (signers b) = length (signers a) \<and>
      (\<forall>j < length (signers a). status (signers a ! j) = VOIDED \<longrightarrow>
          status (signers b ! j) = VOIDED) \<and>
      (voided a \<longrightarrow> voided b))"
  have "\<exists>env'. run cfg cs st k = Some env' \<and> R env env'"
  proof (rule run_related [where R = R])
    show "st k = Some env" by (rule assms)
    show "R a a" for a by (simp add: R_def moves_refl)
    show "R a b \<Longrightarrow> R b c \<Longrightarrow> R a c" for a b c
      unfolding R_def using moves_trans by metis
    show "R a (apply_effect cfg e a)" if "in_range e a" for e a
      unfolding R_def using that
      by (auto simp add: status_apply_effect length_apply_effect moves_def
            simp del: apply_effect.simps split: effect.splits)
  qed
  then obtain env' where env': "run cfg cs st k = Some env'" "R env env'" by blast
  have q: "Q env env'" if "\<not> list_ex isComplete cs"
  proof -
    have "\<exists>env'. run cfg cs st k = Some env' \<and> Q env env'"
    proof (rule run_related [where R = Q])
      show "st k = Some env" by (rule assms)
      show "Q a a" for a by (simp add: Q_def)
      show "Q a b \<Longrightarrow> Q b c \<Longrightarrow> Q a c" for a b c
        unfolding Q_def by auto
      show "Q a (apply_effect cfg e a)"
        if "c \<in> set cs" "effect_of c e" "in_range e a" for c e a
      proof -
        have nc: "\<not> isComplete c" using that(1) \<open>\<not> list_ex isComplete cs\<close>
          by (auto simp: list_ex_iff)
        then have ne: "\<And>t f j. e \<noteq> Completed t f j" using that(2) by (cases c) auto
        have keep: "\<forall>j < length (signers a). status (signers a ! j) = VOIDED \<longrightarrow>
            status (signers (apply_effect cfg e a) ! j) = VOIDED"
          using ne by (auto simp add: status_apply_effect simp del: apply_effect.simps
                         split: effect.splits)
        have "voided (apply_effect cfg e a)" if v: "voided a"
        proof -
          have all: "\<forall>j < length (signers a). status (signers a ! j) = VOIDED"
            using v by (simp add: voided_def list_all_length)
          then have "\<forall>j < length (signers a). status (signers (apply_effect cfg e a) ! j) = VOIDED"
            using keep by simp
          then have 1: "list_all (\<lambda>s. status s = VOIDED) (signers (apply_effect cfg e a))"
            by (simp add: list_all_length length_apply_effect)
          have 2: "documentStatus (apply_effect cfg e a) = VOIDED"
            using ne all v \<open>in_range e a\<close>
            by (auto simp add: documentStatus_apply_effect voided_def
                  simp del: apply_effect.simps split: effect.splits)
          show ?thesis using 1 2 by (simp add: voided_def)
        qed
        then show ?thesis using keep by (simp add: Q_def length_apply_effect)
      qed
    qed
    then show ?thesis using env'(1) by simp
  qed
  show ?thesis
  proof (intro exI[of _ env'] conjI impI allI)
    show "run cfg cs st k = Some env'" by (rule env'(1))
    show "length (signers env') = length (signers env)" using env'(2) by (simp add: R_def)
  next
    fix j assume "j < length (signers env)"
    then show "moves (status (signers env ! j)) (status (signers env' ! j))"
      using env'(2) by (simp add: R_def)
  next
    fix j assume "j < length (signers env)"
      and "status (signers env ! j) \<noteq> VOIDED \<and> status (signers env' ! j) \<noteq> VOIDED"
    then show "chainRank (status (signers env ! j)) \<le> chainRank (status (signers env' ! j))"
      using env'(2) rank_of_moves by (simp add: R_def)
  next
    fix j assume "\<not> list_ex isComplete cs" "j < length (signers env)"
      "status (signers env ! j) = VOIDED"
    then show "status (signers env' ! j) = VOIDED" using q by (simp add: Q_def)
  next
    assume "\<not> list_ex isComplete cs" "voided env"
    then show "voided env'" using q by (simp add: Q_def)
  qed
qed

lemma list_all_two: "length xs = 2 \<Longrightarrow> list_all P xs = (P (xs ! 0) \<and> P (xs ! 1))"
  using two_list [of xs] by auto

lemma statusesAt_two:
  assumes "st k = Some env" and "length (signers env) = 2"
    and "status (signers env ! 0) = a" and "status (signers env ! 1) = b"
    and "documentStatus env = d"
  shows "statusesAt st k = Some ([a, b], d)"
proof -
  obtain x y where "signers env = [x, y]" using two_list [OF assms(2)] by auto
  then show ?thesis using assms by (simp add: statusesAt_def)
qed

subsection \<open>Stamps\<close>









subsection \<open>Scenario facts\<close>

lemma verify_exToken: "verifyJWT exCfg now (Some (exToken e i)) = Inr (exReq e i)"
  by (simp add: verifyJWT_def jwt_verify_def exToken_def exCfg_def exReq_def js_or_def)

lemma ex_base: "BASE_URL exCfg = ''http://h''"
  by (simp add: exCfg_def)

lemma ex_recipients:
  "parseRecipients (\<lambda>s. None) ''a@x.com,b@x.com'' =
     [\<lparr>recEmail = ''a@x.com'', recName = []\<rparr>, \<lparr>recEmail = ''b@x.com'', recName = []\<rparr>]"
  by code_simp

lemma ex_selected: "selectedTemplates (\<lambda>s. None) ''nda'' = Some [JStr ''nda'']"
  by code_simp

lemma ex_created:
  "generateTemplate exCfg exWorld 5000 exForm Map.empty =
     (reply 200 (CreatedBody ''e1'' (SignLink ''http://h'' (exToken ''a@x.com'' 0)) SENT
                   (files (exEnv [SENT, SENT] SENT)) (signers (exEnv [SENT, SENT] SENT))),
      exStore [SENT, SENT] SENT)"
  by (simp add: generateTemplate_def exWorld_def exForm_def exCfg_def ex_recipients ex_selected
        attachLinks_def newSigner_def mintToken_def tokenPayload_def jwt_sign_def exToken_def
        exEnv_def exStore_def Let_def)

lemma ex_run: "run exCfg (exCreate # cs) Map.empty = run exCfg cs (exStore [SENT, SENT] SENT)"
  by (simp add: exCreate_def ex_created)

lemma exStore_at: "exStore ss d ''e1'' = Some (exEnv ss d)"
  by (simp add: exStore_def)

lemma ex_find: "findById (exStore ss d) (envId (exReq e i)) = Some (exEnv ss d)"
  by (simp add: findById_def exReq_def exStore_def)

lemma ex_id: "the_id (exReq e i) = ''e1''"
  by (simp add: the_id_def exReq_def)

lemma ex_idx: "signerIdx (exReq e i) env = int i"
  by (simp add: signerIdx_def exReq_def)

lemmas ex_eval = ex_base getByToken_def complete_def cancel_def verify_exToken findById_def
  exReq_def signerIdx_def the_id_def markDelivered_def markCompleted_def voidAll_def
  exStore_def exEnv_def statusesAt_def stampsAt_def Let_def

lemma ex_no_templates: "selectedTemplates (\<lambda>s. None) [] = Some []"
  by code_simp

lemma ex_no_recipients: "parseRecipients (\<lambda>s. None) ''nobody'' = []"
  by code_simp

lemma ex_files:
  "generateFiles exCfg exWorldMailFails 0 [JStr ''nda''] =
     Some [\<lparr>filename = ''nda.html'', storedName = ''nda.html'',
            publicUrl = ''http://h/storage/originals/nda.html'', mimetype = ''text/html''\<rparr>]"
  by (simp add: exWorldMailFails_def exWorld_def exCfg_def)

lemma ex_two_lines: "parseRecipients exJsonParse exJsonText = []"
  by code_simp

lemma ex_one_line:
  "parseRecipients (\<lambda>s. Some exOneLine) exJsonText = [\<lparr>recEmail = ''a@b.co'', recName = ''A B''\<rparr>]"
  by code_simp

lemma ex_json_selected: "selectedTemplates exJsonParse ''nda'' = Some [JStr ''nda'']"
  by code_simp

lemma ex_signers:
  "length (signers (exEnv [s0, s1] d)) = 2"
  "status (signers (exEnv [s0, s1] d) ! 0) = s0"
  "status (signers (exEnv [s0, s1] d) ! 1) = s1"
  "status (signers (exEnv [s0, s1] d) ! Suc 0) = s1"
  "documentStatus (exEnv ss d) = d"
  by (simp_all add: exEnv_def)

lemma ex_envId: "envId (exReq e i) = Some ''e1''"
  by (simp add: exReq_def)

lemma ex_stamps:
  "deliveredAt (signers (exEnv [s0, s1] d) ! 0) = None"
  "sentAt (signers (exEnv [s0, s1] d) ! 0) = Some 5000"
  by (simp_all add: exEnv_def)


section \<open>Claims about the state machine\<close>

text \<open>
  C7. One cancel call with a token that verifies, on a stored envelope whose signers are in
  any states, answers 200 and leaves the envelope stored with as many signers as before,
  every one of them \<open>VOIDED\<close>, and with \<open>documentStatus\<close> \<open>VOIDED\<close>.
\<close>

theorem cancel_is_absolute:
  assumes "verifyJWT cfg now token = Inr req" and "findById st (envId req) = Some env"
  shows "\<exists>env'. snd (cancel cfg now token st) (the_id req) = Some env' \<and>
           code (fst (cancel cfg now token st)) = 200 \<and>
           documentStatus env' = VOIDED \<and>
           length (signers env') = length (signers env) \<and>
           (\<forall>j < length (signers env'). status (signers env' ! j) = VOIDED)"
  using assms by (simp add: cancel_def signers_voidAll documentStatus_voidAll reply_def)

text \<open>
  The cancel of an envelope with one signer completed and one sent.
\<close>

theorem cancel_is_absolute_witness:
  "verifyJWT exCfg 9000 (Some (exToken ''b@x.com'' 1)) = Inr (exReq ''b@x.com'' 1) \<and>
   statusesAt (exStore [COMPLETED, SENT] SENT) ''e1'' = Some ([COMPLETED, SENT], SENT) \<and>
   statusesAt (snd (cancel exCfg 9000 (Some (exToken ''b@x.com'' 1))
                     (exStore [COMPLETED, SENT] SENT))) ''e1'' = Some ([VOIDED, VOIDED], VOIDED)"
proof -
  let ?st = "exStore [COMPLETED, SENT] SENT"
  let ?tok = "Some (exToken ''b@x.com'' 1)"
  have v: "verifyJWT exCfg 9000 ?tok = Inr (exReq ''b@x.com'' 1)"
    by (rule verify_exToken)
  have f: "findById ?st (envId (exReq ''b@x.com'' 1)) = Some (exEnv [COMPLETED, SENT] SENT)"
    by (rule ex_find)
  have s: "statusesAt ?st ''e1'' = Some ([COMPLETED, SENT], SENT)"
    by (simp add: statusesAt_def exStore_at) (simp add: exEnv_def)
  have n: "length (signers (exEnv [COMPLETED, SENT] SENT)) = 2"
    by (simp add: exEnv_def)
  obtain env' where e: "snd (cancel exCfg 9000 ?tok ?st) ''e1'' = Some env'"
    "documentStatus env' = VOIDED" "length (signers env') = 2"
    "\<forall>j < length (signers env'). status (signers env' ! j) = VOIDED"
    using cancel_is_absolute [OF v f] ex_id n by auto
  obtain a b where ab: "signers env' = [a, b]"
    using two_list [OF e(3)] by blast
  have "status a = VOIDED" "status b = VOIDED"
    using e(4) ab by (auto simp: all_less_two)
  then have "statusesAt (snd (cancel exCfg 9000 ?tok ?st)) ''e1'' = Some ([VOIDED, VOIDED], VOIDED)"
    using e(1,2) ab by (simp add: statusesAt_def)
  then show ?thesis using v s by simp
qed

text \<open>
  C10. A complete request with an upload, a token that verifies, a stored envelope and a
  signer index in range is answered 200 whatever the states are. It sets that signer to
  \<open>COMPLETED\<close> and stamps it, leaves the other signers' states, puts the upload's
  link into \<open>signedPdf\<close>, and sets \<open>documentStatus\<close> to \<open>COMPLETED\<close>
  exactly when every signer is then completed, also on a voided envelope.
\<close>

theorem complete_has_no_state_guard:
  assumes "verifyJWT cfg now token = Inr req" and "findById st (envId req) = Some env"
    and "0 \<le> signerIdx req env" and "signerIdx req env < int (length (signers env))"
  shows "\<exists>env'. snd (complete cfg now token (Some fname) st) (the_id req) = Some env' \<and>
           code (fst (complete cfg now token (Some fname) st)) = 200 \<and>
           length (signers env') = length (signers env) \<and>
           status (signers env' ! nat (signerIdx req env)) = COMPLETED \<and>
           completedAt (signers env' ! nat (signerIdx req env)) = Some now \<and>
           signedPdf env' = BASE_URL cfg @ ''/storage/signed/'' @ fname \<and>
           (\<forall>j < length (signers env). j \<noteq> nat (signerIdx req env) \<longrightarrow>
               status (signers env' ! j) = status (signers env ! j)) \<and>
           (list_all (\<lambda>s. status s = COMPLETED) (signers env') \<longrightarrow>
               documentStatus env' = COMPLETED) \<and>
           (\<not> list_all (\<lambda>s. status s = COMPLETED) (signers env') \<longrightarrow>
               documentStatus env' = documentStatus env)"
proof -
  let ?k = "nat (signerIdx req env)"
  let ?e = "markCompleted cfg now fname ?k env"
  have k: "?k < length (signers env)" using assms(3,4) by simp
  have "snd (complete cfg now token (Some fname) st) (the_id req) = Some ?e"
    and "code (fst (complete cfg now token (Some fname) st)) = 200"
    using complete_ok [OF assms] by (simp_all add: reply_def)
  moreover have "length (signers ?e) = length (signers env)"
    by (simp add: signers_markCompleted)
  moreover have "status (signers ?e ! ?k) = COMPLETED"
    and "completedAt (signers ?e ! ?k) = Some now"
    using k by (simp_all add: signers_markCompleted)
  moreover have "signedPdf ?e = BASE_URL cfg @ ''/storage/signed/'' @ fname"
    by (rule signedPdf_markCompleted)
  moreover have "\<forall>j < length (signers env). j \<noteq> ?k \<longrightarrow>
      status (signers ?e ! j) = status (signers env ! j)"
    by (simp add: signers_markCompleted)
  moreover have "list_all (\<lambda>s. status s = COMPLETED) (signers ?e) \<longrightarrow>
      documentStatus ?e = COMPLETED"
    and "\<not> list_all (\<lambda>s. status s = COMPLETED) (signers ?e) \<longrightarrow>
      documentStatus ?e = documentStatus env"
    by (simp_all add: documentStatus_markCompleted)
  ultimately show ?thesis by blast
qed

text \<open>
  A cancelled envelope with one signer ends as \<open>COMPLETED\<close>.
\<close>

theorem complete_has_no_state_guard_witness:
  "verifyJWT exCfg 9000 (Some (exToken ''a@x.com'' 0)) = Inr (exReq ''a@x.com'' 0) \<and>
   snd (cancel exCfg 8000 (Some (exToken ''a@x.com'' 0)) (exStore [SENT] SENT))
     = exStore [VOIDED] VOIDED \<and>
   statusesAt (exStore [VOIDED] VOIDED) ''e1'' = Some ([VOIDED], VOIDED) \<and>
   statusesAt (snd (complete exCfg 9000 (Some (exToken ''a@x.com'' 0)) (Some ''s.pdf'')
                     (exStore [VOIDED] VOIDED))) ''e1'' = Some ([COMPLETED], COMPLETED)"
proof -
  let ?env = "exEnv [VOIDED] VOIDED"
  let ?st = "exStore [VOIDED] VOIDED"
  let ?tok = "Some (exToken ''a@x.com'' 0)"
  have v: "verifyJWT exCfg 9000 ?tok = Inr (exReq ''a@x.com'' 0)"
    by (rule verify_exToken)
  have c: "snd (cancel exCfg 8000 ?tok (exStore [SENT] SENT)) = ?st"
    by (simp add: cancel_def verify_exToken ex_find ex_id voidAll_def)
       (simp add: exStore_def exEnv_def)
  have f: "findById ?st (envId (exReq ''a@x.com'' 0)) = Some ?env"
    by (rule ex_find)
  have n: "length (signers ?env) = 1" by (simp add: exEnv_def)
  have i: "0 \<le> signerIdx (exReq ''a@x.com'' 0) ?env"
    "signerIdx (exReq ''a@x.com'' 0) ?env < int (length (signers ?env))"
    using n by (simp_all add: ex_idx)
  have s: "statusesAt ?st ''e1'' = Some ([VOIDED], VOIDED)"
    by (simp add: statusesAt_def exStore_at) (simp add: exEnv_def)
  obtain env' where e:
    "snd (complete exCfg 9000 ?tok (Some ''s.pdf'') ?st) (the_id (exReq ''a@x.com'' 0)) = Some env'"
    "length (signers env') = length (signers ?env)"
    "status (signers env' ! nat (signerIdx (exReq ''a@x.com'' 0) ?env)) = COMPLETED"
    "list_all (\<lambda>s. status s = COMPLETED) (signers env') \<longrightarrow> documentStatus env' = COMPLETED"
    using complete_has_no_state_guard [OF v f i, of "''s.pdf''"] by blast
  obtain x where x: "signers env' = [x]"
    using e(2) n by (cases "signers env'") simp_all
  then have "status x = COMPLETED" using e(3) by (simp add: ex_idx)
  then have "map status (signers env') = [COMPLETED]" "documentStatus env' = COMPLETED"
    using x e(4) by simp_all
  then have "statusesAt (snd (complete exCfg 9000 ?tok (Some ''s.pdf'') ?st)) ''e1''
      = Some ([COMPLETED], COMPLETED)"
    using e(1) by (simp add: statusesAt_def ex_id)
  then show ?thesis using v c s by simp
qed

text \<open>
  C2, as the claim states it, fails: after a cancel, two completions take both signers and
  the envelope from \<open>VOIDED\<close> to \<open>COMPLETED\<close>.
\<close>

theorem voided_is_left_counterexample:
  "statusesAt (run exCfg [exCreate, Cancel 6000 (Some (exToken ''a@x.com'' 0))] Map.empty) ''e1''
     = Some ([VOIDED, VOIDED], VOIDED) \<and>
   statusesAt (run exCfg [exCreate, Cancel 6000 (Some (exToken ''a@x.com'' 0)),
                          Complete 7000 (Some (exToken ''a@x.com'' 0)) (Some ''s.pdf''),
                          Complete 8000 (Some (exToken ''b@x.com'' 1)) (Some ''t.pdf'')]
                 Map.empty) ''e1''
     = Some ([COMPLETED, COMPLETED], COMPLETED)"
  unfolding ex_run by (simp add: ex_eval)

text \<open>
  C2, amended. A stored envelope stays stored, with the same number of signers, and

  \<^item> one request changes a signer's status only by the move of its kind: a creation by
    none, an opening of the link only from \<open>SENT\<close> to \<open>DELIVERED\<close>, a completion only
    to \<open>COMPLETED\<close>, a cancellation only to \<open>VOIDED\<close>;

  \<^item> with a token that verifies and a signer index in range, an opening moves the signer
    it addresses to \<open>DELIVERED\<close> when that signer is \<open>SENT\<close>, changes no other
    signer, and sets \<open>documentStatus\<close> to \<open>DELIVERED\<close> when it made that move and
    every signer is then delivered or completed; a completion moves the signer it addresses to \<open>COMPLETED\<close> from any state,
    \<open>VOIDED\<close> included, changes no other signer, and sets \<open>documentStatus\<close> to
    \<open>COMPLETED\<close>, also from \<open>VOIDED\<close>, exactly when every signer is then completed;

  \<^item> with a token that verifies, a cancellation moves every signer and
    \<open>documentStatus\<close> to \<open>VOIDED\<close>;

  \<^item> over any sequence of requests a signer's status changes only by these moves, and
    between two states of the chain it never moves backward; when no request of the
    sequence is a completion, a voided signer stays voided and a voided envelope stays
    voided.
\<close>

theorem status_moves:
  assumes "st k = Some env"
  shows "(\<exists>env'. snd (handle cfg c st) k = Some env' \<and>
            length (signers env') = length (signers env) \<and>
            (\<forall>j < length (signers env).
               moveBy c (status (signers env ! j)) (status (signers env' ! j)))) \<and>
         (\<forall>now token req.
            verifyJWT cfg now token = Inr req \<and> envId req = Some k \<and>
            0 \<le> signerIdx req env \<and> signerIdx req env < int (length (signers env)) \<longrightarrow>
            (\<exists>env'. snd (getByToken cfg now token st) k = Some env' \<and>
               length (signers env') = length (signers env) \<and>
               (\<forall>j < length (signers env).
                  status (signers env' ! j) =
                    (if j = nat (signerIdx req env) \<and> status (signers env ! j) = SENT
                     then DELIVERED else status (signers env ! j))) \<and>
               documentStatus env' =
                 (if status (signers env ! nat (signerIdx req env)) = SENT \<and>
                     list_all (\<lambda>s. status s = DELIVERED \<or> status s = COMPLETED) (signers env')
                  then DELIVERED else documentStatus env)) \<and>
            (\<forall>fname.
               \<exists>env'. snd (complete cfg now token (Some fname) st) k = Some env' \<and>
                 length (signers env') = length (signers env) \<and>
                 (\<forall>j < length (signers env).
                    status (signers env' ! j) =
                      (if j = nat (signerIdx req env) then COMPLETED
                       else status (signers env ! j))) \<and>
                 documentStatus env' =
                   (if list_all (\<lambda>s. status s = COMPLETED) (signers env')
                    then COMPLETED else documentStatus env))) \<and>
         (\<forall>now token req.
            verifyJWT cfg now token = Inr req \<and> envId req = Some k \<longrightarrow>
            (\<exists>env'. snd (cancel cfg now token st) k = Some env' \<and>
               length (signers env') = length (signers env) \<and>
               (\<forall>j < length (signers env). status (signers env' ! j) = VOIDED) \<and>
               documentStatus env' = VOIDED)) \<and>
         (\<exists>env'. run cfg cs st k = Some env' \<and>
            length (signers env') = length (signers env) \<and>
            (\<forall>j < length (signers env).
               moves (status (signers env ! j)) (status (signers env' ! j)) \<and>
               (status (signers env ! j) \<noteq> VOIDED \<and> status (signers env' ! j) \<noteq> VOIDED \<longrightarrow>
                  chainRank (status (signers env ! j)) \<le> chainRank (status (signers env' ! j)))) \<and>
            (\<not> list_ex isComplete cs \<longrightarrow>
               (\<forall>j < length (signers env). status (signers env ! j) = VOIDED \<longrightarrow>
                   status (signers env' ! j) = VOIDED) \<and>
               (voided env \<longrightarrow> voided env')))"
proof (intro conjI allI impI)
  show "\<exists>env'. snd (handle cfg c st) k = Some env' \<and>
            length (signers env') = length (signers env) \<and>
            (\<forall>j < length (signers env).
               moveBy c (status (signers env ! j)) (status (signers env' ! j)))"
    by (rule request_moves [where st = st and k = k, OF assms])
  show "\<exists>env'. run cfg cs st k = Some env' \<and>
            length (signers env') = length (signers env) \<and>
            (\<forall>j < length (signers env).
               moves (status (signers env ! j)) (status (signers env' ! j)) \<and>
               (status (signers env ! j) \<noteq> VOIDED \<and> status (signers env' ! j) \<noteq> VOIDED \<longrightarrow>
                  chainRank (status (signers env ! j)) \<le> chainRank (status (signers env' ! j)))) \<and>
            (\<not> list_ex isComplete cs \<longrightarrow>
               (\<forall>j < length (signers env). status (signers env ! j) = VOIDED \<longrightarrow>
                   status (signers env' ! j) = VOIDED) \<and>
               (voided env \<longrightarrow> voided env'))"
    by (rule moves_over_requests [where st = st and k = k, OF assms])
next
  fix now token req
  assume a: "verifyJWT cfg now token = Inr req \<and> envId req = Some k \<and>
            0 \<le> signerIdx req env \<and> signerIdx req env < int (length (signers env))"
  then show "\<exists>env'. snd (getByToken cfg now token st) k = Some env' \<and>
               length (signers env') = length (signers env) \<and>
               (\<forall>j < length (signers env).
                  status (signers env' ! j) =
                    (if j = nat (signerIdx req env) \<and> status (signers env ! j) = SENT
                     then DELIVERED else status (signers env ! j))) \<and>
               documentStatus env' =
                 (if status (signers env ! nat (signerIdx req env)) = SENT \<and>
                     list_all (\<lambda>s. status s = DELIVERED \<or> status s = COMPLETED) (signers env')
                  then DELIVERED else documentStatus env)"
    using opening_exact [where st = st and k = k and cfg = cfg and now = now and token = token and req = req, OF assms] by simp
  fix fname
  show "\<exists>env'. snd (complete cfg now token (Some fname) st) k = Some env' \<and>
                 length (signers env') = length (signers env) \<and>
                 (\<forall>j < length (signers env).
                    status (signers env' ! j) =
                      (if j = nat (signerIdx req env) then COMPLETED
                       else status (signers env ! j))) \<and>
                 documentStatus env' =
                   (if list_all (\<lambda>s. status s = COMPLETED) (signers env')
                    then COMPLETED else documentStatus env)"
    using completion_exact [where st = st and k = k and cfg = cfg and now = now and token = token and req = req and fname = fname, OF assms] a by simp
next
  fix now token req
  assume "verifyJWT cfg now token = Inr req \<and> envId req = Some k"
  then show "\<exists>env'. snd (cancel cfg now token st) k = Some env' \<and>
               length (signers env') = length (signers env) \<and>
               (\<forall>j < length (signers env). status (signers env' ! j) = VOIDED) \<and>
               documentStatus env' = VOIDED"
    using cancel_exact [where st = st and k = k and cfg = cfg and now = now and token = token and req = req, OF assms] by simp
qed

text \<open>
  On the envelope of the scenario: the first signer opens the link, the second completes,
  a cancellation voids both, a completion on a voided envelope whose other signer is
  completed ends it as \<open>COMPLETED\<close>, and a voided envelope stays voided under an
  opening and a second cancellation.
\<close>

theorem status_moves_witness:
  "statusesAt (exStore [SENT, SENT] SENT) ''e1'' = Some ([SENT, SENT], SENT) \<and>
   statusesAt (snd (getByToken exCfg 6000 (Some (exToken ''a@x.com'' 0))
                      (exStore [SENT, SENT] SENT))) ''e1''
     = Some ([DELIVERED, SENT], SENT) \<and>
   statusesAt (snd (complete exCfg 7000 (Some (exToken ''b@x.com'' 1)) (Some ''s.pdf'')
                      (exStore [SENT, SENT] SENT))) ''e1''
     = Some ([SENT, COMPLETED], SENT) \<and>
   statusesAt (snd (cancel exCfg 8000 (Some (exToken ''a@x.com'' 0))
                      (exStore [SENT, SENT] SENT))) ''e1''
     = Some ([VOIDED, VOIDED], VOIDED) \<and>
   statusesAt (snd (complete exCfg 9000 (Some (exToken ''b@x.com'' 1)) (Some ''s.pdf'')
                      (exStore [COMPLETED, VOIDED] VOIDED))) ''e1''
     = Some ([COMPLETED, COMPLETED], COMPLETED) \<and>
   statusesAt (run exCfg [ByToken 9000 (Some (exToken ''a@x.com'' 0)),
                          Cancel 9500 (Some (exToken ''b@x.com'' 1))]
                 (exStore [VOIDED, VOIDED] VOIDED)) ''e1'' = Some ([VOIDED, VOIDED], VOIDED)"
proof -
  let ?s = "exStore [SENT, SENT] SENT"
  let ?e = "exEnv [SENT, SENT] SENT"
  let ?sv = "exStore [COMPLETED, VOIDED] VOIDED"
  let ?ev = "exEnv [COMPLETED, VOIDED] VOIDED"
  let ?st = "exStore [VOIDED, VOIDED] VOIDED"
  let ?env = "exEnv [VOIDED, VOIDED] VOIDED"
  let ?cs = "[ByToken 9000 (Some (exToken ''a@x.com'' 0)),
              Cancel 9500 (Some (exToken ''b@x.com'' 1))]"
  note T = status_moves [where st = ?s and k = "''e1''" and env = ?e and cfg = exCfg,
      OF exStore_at]
  note V = status_moves [where st = ?sv and k = "''e1''" and env = ?ev and cfg = exCfg,
      OF exStore_at]
  have start: "statusesAt ?s ''e1'' = Some ([SENT, SENT], SENT)"
    by (simp add: statusesAt_def exStore_at) (simp add: exEnv_def)
  have h0: "verifyJWT exCfg 6000 (Some (exToken ''a@x.com'' 0)) = Inr (exReq ''a@x.com'' 0) \<and>
      envId (exReq ''a@x.com'' 0) = Some ''e1'' \<and> 0 \<le> signerIdx (exReq ''a@x.com'' 0) ?e \<and>
      signerIdx (exReq ''a@x.com'' 0) ?e < int (length (signers ?e))"
    by (simp add: verify_exToken ex_envId ex_idx ex_signers)
  have "\<exists>env'. snd (getByToken exCfg 6000 (Some (exToken ''a@x.com'' 0)) ?s) ''e1'' = Some env' \<and>
      length (signers env') = 2 \<and> status (signers env' ! 0) = DELIVERED \<and>
      status (signers env' ! 1) = SENT \<and> documentStatus env' = SENT"
    using T [THEN conjunct2, THEN conjunct1, rule_format, OF h0, THEN conjunct1]
    by (auto simp add: ex_idx ex_signers all_less_two list_all_two)
  then have f_open: "statusesAt (snd (getByToken exCfg 6000 (Some (exToken ''a@x.com'' 0)) ?s)) ''e1''
      = Some ([DELIVERED, SENT], SENT)"
    using statusesAt_two by auto
  have h1: "verifyJWT exCfg 7000 (Some (exToken ''b@x.com'' 1)) = Inr (exReq ''b@x.com'' 1) \<and>
      envId (exReq ''b@x.com'' 1) = Some ''e1'' \<and> 0 \<le> signerIdx (exReq ''b@x.com'' 1) ?e \<and>
      signerIdx (exReq ''b@x.com'' 1) ?e < int (length (signers ?e))"
    by (simp add: verify_exToken ex_envId ex_idx ex_signers)
  have "\<exists>env'. snd (complete exCfg 7000 (Some (exToken ''b@x.com'' 1)) (Some ''s.pdf'') ?s) ''e1''
        = Some env' \<and>
      length (signers env') = 2 \<and> status (signers env' ! 0) = SENT \<and>
      status (signers env' ! 1) = COMPLETED \<and> documentStatus env' = SENT"
    using T [THEN conjunct2, THEN conjunct1, rule_format, OF h1, THEN conjunct2, rule_format,
        of "''s.pdf''"]
    by (auto simp add: ex_idx ex_signers all_less_two list_all_two)
  then have f_done: "statusesAt (snd (complete exCfg 7000 (Some (exToken ''b@x.com'' 1))
      (Some ''s.pdf'') ?s)) ''e1'' = Some ([SENT, COMPLETED], SENT)"
    using statusesAt_two by auto
  have h2: "verifyJWT exCfg 8000 (Some (exToken ''a@x.com'' 0)) = Inr (exReq ''a@x.com'' 0) \<and>
      envId (exReq ''a@x.com'' 0) = Some ''e1''"
    by (simp add: verify_exToken ex_envId)
  have "\<exists>env'. snd (cancel exCfg 8000 (Some (exToken ''a@x.com'' 0)) ?s) ''e1'' = Some env' \<and>
      length (signers env') = 2 \<and> status (signers env' ! 0) = VOIDED \<and>
      status (signers env' ! 1) = VOIDED \<and> documentStatus env' = VOIDED"
    using T [THEN conjunct2, THEN conjunct2, THEN conjunct1, rule_format, OF h2]
    by (auto simp add: ex_signers all_less_two)
  then have f_void: "statusesAt (snd (cancel exCfg 8000 (Some (exToken ''a@x.com'' 0)) ?s)) ''e1''
      = Some ([VOIDED, VOIDED], VOIDED)"
    using statusesAt_two by auto
  have h3: "verifyJWT exCfg 9000 (Some (exToken ''b@x.com'' 1)) = Inr (exReq ''b@x.com'' 1) \<and>
      envId (exReq ''b@x.com'' 1) = Some ''e1'' \<and> 0 \<le> signerIdx (exReq ''b@x.com'' 1) ?ev \<and>
      signerIdx (exReq ''b@x.com'' 1) ?ev < int (length (signers ?ev))"
    by (simp add: verify_exToken ex_envId ex_idx ex_signers)
  have "\<exists>env'. snd (complete exCfg 9000 (Some (exToken ''b@x.com'' 1)) (Some ''s.pdf'') ?sv) ''e1''
        = Some env' \<and>
      length (signers env') = 2 \<and> status (signers env' ! 0) = COMPLETED \<and>
      status (signers env' ! 1) = COMPLETED \<and> documentStatus env' = COMPLETED"
    using V [THEN conjunct2, THEN conjunct1, rule_format, OF h3, THEN conjunct2, rule_format,
        of "''s.pdf''"]
    by (auto simp add: ex_idx ex_signers all_less_two list_all_two)
  then have f_back: "statusesAt (snd (complete exCfg 9000 (Some (exToken ''b@x.com'' 1))
      (Some ''s.pdf'') ?sv)) ''e1'' = Some ([COMPLETED, COMPLETED], COMPLETED)"
    using statusesAt_two by auto
  have n: "length (signers ?env) = 2" and vd: "voided ?env"
    by (simp_all add: exEnv_def voided_def)
  have nc: "\<not> list_ex isComplete ?cs" by simp
  have "\<exists>env'. run exCfg ?cs ?st ''e1'' = Some env' \<and>
      length (signers env') = length (signers ?env) \<and> voided env'"
    using status_moves [where st = ?st and k = "''e1''" and env = ?env and cfg = exCfg
        and cs = ?cs, OF exStore_at, THEN conjunct2, THEN conjunct2, THEN conjunct2] vd nc
    by auto
  then obtain env' where e: "run exCfg ?cs ?st ''e1'' = Some env'"
    "length (signers env') = 2" "voided env'"
    using n by auto
  obtain a b where ab: "signers env' = [a, b]"
    using two_list [OF e(2)] by auto
  have "map status (signers env') = [VOIDED, VOIDED]" "documentStatus env' = VOIDED"
    using e(3) by (simp_all add: voided_def ab)
  then have kept: "statusesAt (run exCfg ?cs ?st) ''e1'' = Some ([VOIDED, VOIDED], VOIDED)"
    using e(1) by (simp add: statusesAt_def)
  show ?thesis
    using start f_open f_done f_void f_back kept by (intro conjI)
qed




text \<open>
  C1, at the input where the code departs from it: after the creation for two signers,
  the first opens the link and the second completes without having opened it. Every
  signer is then delivered or completed, the aggregate of the spec is \<open>DELIVERED\<close>,
  and the stored \<open>documentStatus\<close> is still \<open>SENT\<close>.
\<close>

theorem completion_leaves_sent:
  "statusesAt (run exCfg [exCreate, ByToken 6000 (Some (exToken ''a@x.com'' 0)),
                          Complete 7000 (Some (exToken ''b@x.com'' 1)) (Some ''s.pdf'')]
                 Map.empty) ''e1''
     = Some ([DELIVERED, COMPLETED], SENT) \<and>
   specAggregate [DELIVERED, COMPLETED] = DELIVERED"
  unfolding ex_run by (simp add: ex_eval specAggregate_def)

text \<open>
  That completion is the only way out of the agreement. A regular envelope is regular
  again after any request, unless the request is a completion that turns a signer who had
  not opened the link to \<open>COMPLETED\<close>; and the envelope that a creation stores is
  regular.
\<close>

theorem aggregate_kept:
  "(st k = Some env \<and> regular env \<longrightarrow>
      (\<exists>env'. snd (handle cfg c st) k = Some env' \<and>
         (regular env' \<or>
          isComplete c \<and>
          (\<exists>j < length (signers env). \<not> opened (status (signers env ! j)) \<and>
                 status (signers env' ! j) = COMPLETED)))) \<and>
   (st k = None \<and> snd (handle cfg c st) k = Some env \<longrightarrow> regular env)"
proof (intro conjI impI)
  assume a: "st k = Some env \<and> regular env"
  then obtain e where e: "effect_of c e" "in_range e env"
    "snd (handle cfg c st) k = Some (apply_effect cfg e env)"
    using handle_effect [of st k env c cfg] by blast
  show "\<exists>env'. snd (handle cfg c st) k = Some env' \<and>
         (regular env' \<or>
          isComplete c \<and>
          (\<exists>j < length (signers env). \<not> opened (status (signers env ! j)) \<and>
                 status (signers env' ! j) = COMPLETED))"
  proof (cases e)
    case Unchanged
    then show ?thesis using e a by simp
  next
    case (Delivered now j)
    then show ?thesis using e a regular_markDelivered by simp
  next
    case Voided
    then show ?thesis using e a regular_voidAll by simp
  next
    case (Completed now fname j)
    then have c: "isComplete c" using e(1) by (cases c) simp_all
    have j: "j < length (signers env)" using e(2) Completed by simp
    show ?thesis
    proof (cases "opened (status (signers env ! j))")
      case True
      then show ?thesis using e Completed a j regular_markCompleted by simp
    next
      case False
      have "status (signers (markCompleted cfg now fname j env) ! j) = COMPLETED"
        using j by (simp add: signers_markCompleted)
      then show ?thesis using e Completed c j False by auto
    qed
  qed
next
  assume a: "st k = None \<and> snd (handle cfg c st) k = Some env"
  then show "regular env"
    by (cases c)
       (auto simp: getByToken_absent complete_absent cancel_absent dest: generateTemplate_regular)
qed

section \<open>Claims about creation and tokens\<close>

text \<open>
  C9. The creation request is answered with a status of the 400 class, and the store is
  left as it was, when no template is selected (400), when no recipient is valid (400),
  and when none of the selected templates has a file (404).
\<close>

theorem creation_rejections:
  "(selectedTemplates (jsonParse w) (templates f) = None \<or>
    selectedTemplates (jsonParse w) (templates f) = Some [] \<longrightarrow>
      generateTemplate cfg w now f st
        = (reply 400 (ErrorBody ''Select at least one template''), st) \<and>
      clientError (fst (generateTemplate cfg w now f st))) \<and>
   (selectedTemplates (jsonParse w) (templates f) = Some sel \<and> sel \<noteq> [] \<and>
    parseRecipients (jsonParse w) (emails f) = [] \<longrightarrow>
      generateTemplate cfg w now f st
        = (reply 400 (ErrorBody ''Provide at least one valid recipient email''), st) \<and>
      clientError (fst (generateTemplate cfg w now f st))) \<and>
   (selectedTemplates (jsonParse w) (templates f) = Some sel \<and> sel \<noteq> [] \<and>
    parseRecipients (jsonParse w) (emails f) \<noteq> [] \<and>
    list_all (\<lambda>t. \<not> tplExists w (toStr t)) sel \<longrightarrow>
      generateTemplate cfg w now f st = (reply 404 (ErrorBody ''No templates found''), st) \<and>
      clientError (fst (generateTemplate cfg w now f st)))"
  by (auto simp: generateTemplate_def generateFiles_none_exist clientError_def reply_def)

text \<open>
  The three rejections in the scenario.
\<close>

theorem creation_rejections_witness:
  "selectedTemplates (jsonParse exWorld) (templates (exForm\<lparr>templates := []\<rparr>)) = Some [] \<and>
   generateTemplate exCfg exWorld 5000 (exForm\<lparr>templates := []\<rparr>) (exStore [SENT] SENT)
     = (reply 400 (ErrorBody ''Select at least one template''), exStore [SENT] SENT) \<and>
   selectedTemplates (jsonParse exWorld) (templates (exForm\<lparr>emails := ''nobody''\<rparr>))
     = Some [JStr ''nda''] \<and>
   parseRecipients (jsonParse exWorld) (emails (exForm\<lparr>emails := ''nobody''\<rparr>)) = [] \<and>
   generateTemplate exCfg exWorld 5000 (exForm\<lparr>emails := ''nobody''\<rparr>) (exStore [SENT] SENT)
     = (reply 400 (ErrorBody ''Provide at least one valid recipient email''),
        exStore [SENT] SENT) \<and>
   generateTemplate exCfg exWorldNoFiles 5000 exForm (exStore [SENT] SENT)
     = (reply 404 (ErrorBody ''No templates found''), exStore [SENT] SENT)"
proof -
  have a: "selectedTemplates (jsonParse exWorld) (templates (exForm\<lparr>templates := []\<rparr>)) = Some []"
    by (simp add: exWorld_def exForm_def ex_no_templates)
  have b: "selectedTemplates (jsonParse exWorld) (templates (exForm\<lparr>emails := ''nobody''\<rparr>))
      = Some [JStr ''nda'']"
    "parseRecipients (jsonParse exWorld) (emails (exForm\<lparr>emails := ''nobody''\<rparr>)) = []"
    by (simp_all add: exWorld_def exForm_def ex_selected ex_no_recipients)
  have c: "selectedTemplates (jsonParse exWorldNoFiles) (templates exForm) = Some [JStr ''nda'']"
    "parseRecipients (jsonParse exWorldNoFiles) (emails exForm) \<noteq> []"
    "list_all (\<lambda>t. \<not> tplExists exWorldNoFiles (toStr t)) [JStr ''nda'']"
    by (simp_all add: exWorldNoFiles_def exWorld_def exForm_def ex_selected ex_recipients)
  note r1 = creation_rejections [where w = exWorld and f = "exForm\<lparr>templates := []\<rparr>"
      and cfg = exCfg and now = 5000 and st = "exStore [SENT] SENT"]
  note r2 = creation_rejections [where w = exWorld and f = "exForm\<lparr>emails := ''nobody''\<rparr>"
      and cfg = exCfg and now = 5000 and st = "exStore [SENT] SENT" and sel = "[JStr ''nda'']"]
  note r3 = creation_rejections [where w = exWorldNoFiles and f = exForm
      and cfg = exCfg and now = 5000 and st = "exStore [SENT] SENT" and sel = "[JStr ''nda'']"]
  show ?thesis using a b c r1 r2 r3 by simp
qed

text \<open>
  C3, as the claim states it, fails: when the mail to one recipient fails, the request is
  answered 500, though the envelope is stored.
\<close>

theorem mail_failure_is_answered_500_counterexample:
  "generateTemplate exCfg exWorldMailFails 5000 exForm Map.empty =
     (reply 500 (ErrorBody ''Generation failed''), exStore [SENT, SENT] SENT)"
  by (simp add: generateTemplate_def exWorldMailFails_def exWorld_def exForm_def exCfg_def
        ex_recipients ex_selected attachLinks_def newSigner_def mintToken_def tokenPayload_def
        jwt_sign_def exToken_def exEnv_def exStore_def Let_def)

text \<open>
  C3, amended. A creation request that gets through template selection, recipient
  parsing, file generation and the store write leaves the new envelope stored, with status
  \<open>SENT\<close>, one signer per recipient and a signing link for each, whether the mails go
  out or not. The answer is the 200 that reports the creation when every mail goes out,
  and the 500 of a failed generation when one does not.
\<close>

theorem mail_failure_keeps_envelope:
  assumes "selectedTemplates (jsonParse w) (templates f) = Some sel" and "sel \<noteq> []"
    and "parseRecipients (jsonParse w) (emails f) = rs" and "rs \<noteq> []"
    and "generateFiles cfg w 0 sel = Some fs" and "fs \<noteq> []"
    and "st (newId w) = None"
  shows "\<exists>env. snd (generateTemplate cfg w now f st) = st(newId w \<mapsto> env) \<and>
           documentStatus env = SENT \<and> files env = fs \<and>
           map email (signers env) = map recEmail rs \<and>
           map status (signers env) = map (\<lambda>r. SENT) rs \<and>
           (\<forall>i < length rs. signedUrl (signers env ! i) =
                SignLink (BASE_URL cfg) (mintToken cfg now (newId w) (newSigner now f (rs ! i)) i)) \<and>
           (list_all (\<lambda>r. mailOk w (recEmail r)) rs \<longrightarrow>
              fst (generateTemplate cfg w now f st) =
                reply 200 (CreatedBody (newId w) (envSignedUrl env) SENT fs (signers env))) \<and>
           (\<not> list_all (\<lambda>r. mailOk w (recEmail r)) rs \<longrightarrow>
              fst (generateTemplate cfg w now f st) = reply 500 (ErrorBody ''Generation failed''))"
proof -
  let ?env0 = "\<lparr>signers = map (newSigner now f) rs, documentStatus = SENT, files = fs,
                pdf = [], signedPdf = [], envSignedUrl = Plain []\<rparr>"
  let ?env = "attachLinks cfg now (newId w) ?env0"
  have em: "map email (signers ?env) = map recEmail rs"
    by (simp add: email_attachLinks newSigner_def comp_def)
  have mails: "list_all (\<lambda>s. mailOk w (email s)) (signers ?env) =
      list_all (\<lambda>r. mailOk w (recEmail r)) rs"
  proof -
    have "list_all (\<lambda>s. mailOk w (email s)) (signers ?env) =
        list_all (mailOk w) (map email (signers ?env))"
      by (simp add: list_all_iff)
    also have "\<dots> = list_all (mailOk w) (map recEmail rs)" by (simp only: em)
    also have "\<dots> = list_all (\<lambda>r. mailOk w (recEmail r)) rs" by (simp add: list_all_iff)
    finally show ?thesis .
  qed
  have gen: "generateTemplate cfg w now f st =
      (if list_all (\<lambda>r. mailOk w (recEmail r)) rs
       then reply 200 (CreatedBody (newId w) (envSignedUrl ?env) (documentStatus ?env)
                         (files ?env) (signers ?env))
       else reply 500 (ErrorBody ''Generation failed''), st(newId w \<mapsto> ?env))"
    using assms mails by (simp add: generateTemplate_def Let_def)
  have links: "\<forall>i < length rs. signedUrl (signers ?env ! i) =
      SignLink (BASE_URL cfg) (mintToken cfg now (newId w) (newSigner now f (rs ! i)) i)"
    by (simp add: nth_attachLinks)
  have st: "map status (signers ?env) = map (\<lambda>r. SENT) rs"
    by (simp add: status_attachLinks newSigner_def comp_def)
  show ?thesis
    using gen em st links
    by (intro exI[of _ ?env]) (simp add: documentStatus_attachLinks files_attachLinks)
qed

text \<open>
  The scenario with the mail to the second recipient failing.
\<close>

theorem mail_failure_keeps_envelope_witness:
  "selectedTemplates (jsonParse exWorldMailFails) (templates exForm) = Some [JStr ''nda''] \<and>
   parseRecipients (jsonParse exWorldMailFails) (emails exForm) =
     [\<lparr>recEmail = ''a@x.com'', recName = []\<rparr>, \<lparr>recEmail = ''b@x.com'', recName = []\<rparr>] \<and>
   fst (generateTemplate exCfg exWorldMailFails 5000 exForm Map.empty) =
     reply 500 (ErrorBody ''Generation failed'') \<and>
   statusesAt (snd (generateTemplate exCfg exWorldMailFails 5000 exForm Map.empty)) ''e1'' =
     Some ([SENT, SENT], SENT)"
proof -
  let ?rs = "[\<lparr>recEmail = ''a@x.com'', recName = []\<rparr>, \<lparr>recEmail = ''b@x.com'', recName = []\<rparr>]"
  let ?fs = "[\<lparr>filename = ''nda.html'', storedName = ''nda.html'',
               publicUrl = ''http://h/storage/originals/nda.html'', mimetype = ''text/html''\<rparr>]"
  have a: "selectedTemplates (jsonParse exWorldMailFails) (templates exForm) = Some [JStr ''nda'']"
    by (simp add: exWorldMailFails_def exWorld_def exForm_def ex_selected)
  have b: "parseRecipients (jsonParse exWorldMailFails) (emails exForm) = ?rs"
    by (simp add: exWorldMailFails_def exWorld_def exForm_def ex_recipients)
  have c: "generateFiles exCfg exWorldMailFails 0 [JStr ''nda''] = Some ?fs"
    by (rule ex_files)
  have d: "Map.empty (newId exWorldMailFails) = None" by simp
  have n: "newId exWorldMailFails = ''e1''" by (simp add: exWorldMailFails_def exWorld_def)
  have m: "\<not> list_all (\<lambda>r. mailOk exWorldMailFails (recEmail r)) ?rs"
    by (simp add: exWorldMailFails_def exWorld_def)
  have "\<exists>env. snd (generateTemplate exCfg exWorldMailFails 5000 exForm Map.empty) =
            Map.empty(newId exWorldMailFails \<mapsto> env) \<and>
          documentStatus env = SENT \<and>
          map status (signers env) = map (\<lambda>r. SENT) ?rs \<and>
          fst (generateTemplate exCfg exWorldMailFails 5000 exForm Map.empty) =
            reply 500 (ErrorBody ''Generation failed'')"
    using mail_failure_keeps_envelope [OF a _ b _ c _ d, of 5000] m by auto
  then have "fst (generateTemplate exCfg exWorldMailFails 5000 exForm Map.empty) =
       reply 500 (ErrorBody ''Generation failed'') \<and>
     statusesAt (snd (generateTemplate exCfg exWorldMailFails 5000 exForm Map.empty)) ''e1'' =
       Some ([SENT, SENT], SENT)"
    by (auto simp: statusesAt_def n)
  then show ?thesis using a b by simp
qed

text \<open>
  C6. The link that the creation attaches to signer \<open>i\<close> carries a token whose
  verification, at any later time, gives the request the envelope id, that signer's email
  and the index \<open>i\<close> that were signed. The envelope id is not the empty string: it is
  the text of the identifier that the store assigned.
\<close>

theorem token_round_trip:
  assumes "eid \<noteq> []" and "i < length (signers env)"
  shows "signedUrl (signers (attachLinks cfg now eid env) ! i) =
           SignLink (BASE_URL cfg) (mintToken cfg now eid (signers env ! i) i) \<and>
         verifyJWT cfg later (Some (mintToken cfg now eid (signers env ! i) i)) =
           Inr \<lparr>envId = Some eid, signerEmail = Some (email (signers env ! i)),
                signerIndex = Some (int i)\<rparr>"
  using assms
  by (simp add: nth_attachLinks verifyJWT_def jwt_verify_def mintToken_def jwt_sign_def
        tokenPayload_def js_or_def)

text \<open>
  The token of the second signer of the scenario.
\<close>

theorem token_round_trip_witness:
  "''e1'' \<noteq> [] \<and> (1::nat) < length (signers (exEnv [SENT, SENT] SENT)) \<and>
   verifyJWT exCfg 6000 (Some (mintToken exCfg 5000 ''e1'' (signers (exEnv [SENT, SENT] SENT) ! 1) 1))
     = Inr \<lparr>envId = Some ''e1'', signerEmail = Some ''b@x.com'', signerIndex = Some 1\<rparr>"
proof -
  have a: "''e1'' \<noteq> []" by simp
  have b: "(1::nat) < length (signers (exEnv [SENT, SENT] SENT))" by (simp add: exEnv_def)
  have c: "email (signers (exEnv [SENT, SENT] SENT) ! 1) = ''b@x.com''" by (simp add: exEnv_def)
  show ?thesis
    using token_round_trip [OF a b, of exCfg 5000 6000] a b c by simp
qed

text \<open>
  C4, where the code departs from it: the token that the creation signs has a time of
  issue and no expiry, because the signing call does not pass \<open>expireTime\<close>; its
  verification succeeds at every later time, and the signing page is served. In the
  scenario a token issued at second 5 is accepted at second 5000000.
\<close>

theorem minted_token_has_no_expiry:
  "mintToken cfg now eid s i = Signed (tokenPayload eid s i) (now div 1000) None (JWT_SECRET cfg) \<and>
   jwt_verify (mintToken cfg now eid s i) (JWT_SECRET cfg) later = Inr (tokenPayload eid s i) \<and>
   signPage cfg later (mintToken cfg now eid s i) = reply 200 SignPage \<and>
   verifyJWT exCfg 5000000000 (Some (exToken ''a@x.com'' 0)) = Inr (exReq ''a@x.com'' 0) \<and>
   expireTime = Some 300"
  by (simp add: mintToken_def jwt_sign_def jwt_verify_def signPage_def verify_exToken
        expireTime_def)

section \<open>Claims about the recipient parser\<close>

text \<open>
  C5, at an input where the code departs from it: a JSON array of one object whose email
  passes the test of shape and whose name has a line break. The parser writes the object
  as \<open>name <email>\<close> and reads that text again; the pattern does not match across
  the line break, the whole text is lowercased and fails the test, and the entry is
  dropped. The parser returns no recipient and the creation is answered 400; with the
  name in one line the same object gives its one recipient.
\<close>

theorem object_with_two_line_name_is_dropped:
  "exJsonParse exJsonText = Some exTwoLines \<and>
   emailRegex ''a@b.co'' \<and>
   parseRecipients exJsonParse exJsonText = [] \<and>
   parseRecipients (\<lambda>s. Some exOneLine) exJsonText = [\<lparr>recEmail = ''a@b.co'', recName = ''A B''\<rparr>] \<and>
   generateTemplate exCfg exWorldJson 5000 (exForm\<lparr>emails := exJsonText\<rparr>) Map.empty =
     (reply 400 (ErrorBody ''Provide at least one valid recipient email''), Map.empty)"
proof -
  have "emailRegex ''a@b.co''" by code_simp
  moreover have "generateTemplate exCfg exWorldJson 5000 (exForm\<lparr>emails := exJsonText\<rparr>) Map.empty =
     (reply 400 (ErrorBody ''Provide at least one valid recipient email''), Map.empty)"
    by (simp add: generateTemplate_def exWorldJson_def exWorld_def exForm_def ex_two_lines
          ex_json_selected)
  ultimately show ?thesis
    using ex_two_lines ex_one_line by (simp add: exJsonParse_def)
qed

text \<open>
  On plain entries the parser keeps the contract: for a JSON array, and for an input that
  is not JSON and is split at commas, semicolons and line feeds, when every entry is
  plain the emails returned are the first occurrences of the valid lowercased addresses
  of the entries, one entry for each distinct address, each of them lowercased, trimmed
  and of the shape of an email.
\<close>

theorem parser_on_plain_input:
  assumes "(parse input = Some (JArr vs) \<and> es = vs) \<or>
           (parse input = None \<and> es = map JStr (split isDelimiter input))"
    and "list_all plainEntry es"
  shows "map recEmail (parseRecipients parse input) = firsts (validEmails es) \<and>
         length (parseRecipients parse input) = card (set (validEmails es)) \<and>
         distinct (map recEmail (parseRecipients parse input)) \<and>
         (\<forall>r \<in> set (parseRecipients parse input).
            emailRegex (recEmail r) \<and> toLowerCase (recEmail r) = recEmail r \<and>
            trim (recEmail r) = recEmail r)"
proof -
  have read: "List.map_filter readEmail (recipientList parse input) = validEmails es"
    using assms(1)
  proof (elim disjE conjE)
    assume "parse input = Some (JArr vs)" "es = vs"
    then show ?thesis using assms(2) by (simp add: recipientList_def read_entries)
  next
    assume a: "parse input = None" "es = map JStr (split isDelimiter input)"
    have "List.map_filter readEmail (split isDelimiter input) =
        validEmails (map JStr (split isDelimiter input))"
      using assms(2) unfolding a(2) by (rule read_strings)
    then show ?thesis using a by (simp add: recipientList_def)
  qed
  have emails: "map recEmail (parseRecipients parse input) = firsts (validEmails es)"
    by (simp only: parseRecipients_emails read)
  have "length (map recEmail (parseRecipients parse input)) = card (set (validEmails es))"
    unfolding emails by (rule length_firsts)
  then have len: "length (parseRecipients parse input) = card (set (validEmails es))"
    by simp
  have dis: "distinct (map recEmail (parseRecipients parse input))"
    unfolding emails by (rule distinct_firsts)
  have shape: "emailRegex (recEmail r) \<and> toLowerCase (recEmail r) = recEmail r \<and>
      trim (recEmail r) = recEmail r" if "r \<in> set (parseRecipients parse input)" for r
  proof -
    have "recEmail r \<in> set (map recEmail (parseRecipients parse input))" using that by simp
    then have "recEmail r \<in> set (validEmails es)" unfolding emails set_firsts .
    then show ?thesis by (rule validEmails_shape)
  qed
  show ?thesis using emails len dis shape by blast
qed

text \<open>
  A string entry that is not plain is misread in the same way as the object: the name has
  a carriage return, the contract reads the address between the brackets, and the parser
  returns no recipient.
\<close>

lemma string_with_two_line_name_is_dropped:
  "split isDelimiter exTwoLineString = [exTwoLineString] \<and>
   \<not> plainEntry (JStr exTwoLineString) \<and>
   validEmails [JStr exTwoLineString] = [''a@b.co''] \<and>
   parseRecipients (\<lambda>s. None) exTwoLineString = []"
  by code_simp

end
